theory Spec2Isabelle
  imports Complex_Main "HOL-Library.AList"
begin

section \<open>Python values, errors and list indexing\<close>

text \<open>
  The exceptions the prediction pipeline can raise. Every raise of the source is a
  branch \<open>Inl e\<close> of the model; a normal return is \<open>Inr v\<close>.
\<close>

datatype error =
  IndexError | KeyError | ValueError | ZeroDivisionError | TypeError | AttributeError

definition bindE :: "error + 'a \<Rightarrow> ('a \<Rightarrow> error + 'b) \<Rightarrow> error + 'b" where
  "bindE m f = (case m of Inl e \<Rightarrow> Inl e | Inr v \<Rightarrow> f v)"

text \<open>Python's \<open>xs[i]\<close>: a negative index counts from the end, out of range raises.\<close>

definition py_index :: "'a list \<Rightarrow> int \<Rightarrow> error + 'a" where
  "py_index xs i =
     (let n = int (length xs); k = (if i < 0 then n + i else i)
      in if 0 \<le> k \<and> k < n then Inr (xs ! nat k) else Inl IndexError)"

text \<open>\<open>max(lst)\<close> of a list of numbers raises ValueError on the empty list.\<close>

fun py_max :: "real list \<Rightarrow> error + real" where
  "py_max [] = Inl ValueError"
| "py_max (x # xs) = Inr (fold max xs x)"

text \<open>\<open>math.log(x)\<close> raises ValueError (math domain error) unless \<open>x > 0\<close>.\<close>

definition math_log :: "real \<Rightarrow> error + real" where
  "math_log x = (if x \<le> 0 then Inl ValueError else Inr (ln x))"

section \<open>Label normalisation (keras\_rnn.py)\<close>

text \<open>
  \<open>normalize_remaining_time\<close>, first loop: the running maximum over all grouped
  sequences, starting from \<open>-10000000\<close>.
\<close>

fun max_value_loop :: "real list list \<Rightarrow> real \<Rightarrow> error + real" where
  "max_value_loop [] max_value = Inr max_value"
| "max_value_loop (lst # rest) max_value =
     bindE (py_max lst) (\<lambda>max_lst. max_value_loop rest (max max_value max_lst))"

text \<open>
  The inner loop \<open>for val in lst\<close>: the logarithm is taken before the division, so a
  domain error wins over a division by zero.
\<close>

fun normalize_list :: "real \<Rightarrow> real list \<Rightarrow> error + real list" where
  "normalize_list log_max_value [] = Inr []"
| "normalize_list log_max_value (val # vals) =
     bindE (math_log (val + 1)) (\<lambda>l.
       if log_max_value = 0 then Inl ZeroDivisionError
       else bindE (normalize_list log_max_value vals) (\<lambda>r.
         Inr ((- 1 + 2 * (l / log_max_value)) # r)))"

fun normalize_lists :: "real \<Rightarrow> real list list \<Rightarrow> error + real list list" where
  "normalize_lists log_max_value [] = Inr []"
| "normalize_lists log_max_value (lst # rest) =
     bindE (normalize_list log_max_value lst) (\<lambda>r.
       bindE (normalize_lists log_max_value rest) (\<lambda>rs. Inr (r # rs)))"

definition normalize_remaining_time ::
  "real list list \<Rightarrow> error + (real list list \<times> real)" where
  "normalize_remaining_time rem_time_grouped =
     bindE (max_value_loop rem_time_grouped (- 10000000)) (\<lambda>max_value.
       bindE (math_log (1 + max_value)) (\<lambda>log_max_value.
         bindE (normalize_lists log_max_value rem_time_grouped) (\<lambda>ret.
           Inr (ret, log_max_value))))"

definition reconstruct_value :: "real \<Rightarrow> real \<Rightarrow> real" where
  "reconstruct_value y log_max_value =
     (let y = (if y < - 1 then - 1 else y)
      in exp ((y + 1) / 2 * log_max_value) - 1)"

section \<open>Label grouping (keras\_rnn.py)\<close>

text \<open>
  The padding loop \<open>while len(rem) < max_len_trace: rem.append(rem[-1])\<close>, shared by
  \<open>group_remaining_time\<close> and \<open>get_remaining_time_from_log\<close>. Reading \<open>rem[-1]\<close> of an
  empty list raises IndexError.
\<close>

function pad_last :: "real list \<Rightarrow> nat \<Rightarrow> error + real list" where
  "pad_last rem max_len_trace =
     (if length rem < max_len_trace
      then bindE (py_index rem (- 1)) (\<lambda>v. pad_last (rem @ [v]) max_len_trace)
      else Inr rem)"
  by pat_completeness auto
termination
  by (relation "measure (\<lambda>(rem, max_len_trace). max_len_trace - length rem)") auto

declare pad_last.simps [simp del]

text \<open>
  \<open>group_remaining_time\<close>, inner loop \<open>for i in range(len(ct))\<close>. The first argument is
  the part of the range still to run, \<open>n\<close> is \<open>len(ct)\<close>; the loop state is \<open>rem\<close>,
  \<open>added\<close>, \<open>rem_time_grouped\<close> and the running index \<open>j\<close>. \<open>deepcopy(rem)\<close> stores the
  value \<open>rem\<close> has at that moment.
\<close>

fun group_case_loop ::
  "nat list \<Rightarrow> nat \<Rightarrow> real list \<Rightarrow> nat \<Rightarrow> real list \<Rightarrow> bool \<Rightarrow> real list list \<Rightarrow> nat
     \<Rightarrow> error + (real list list \<times> nat)" where
  "group_case_loop [] n remaining_time max_len_trace rem added rem_time_grouped j =
     Inr (rem_time_grouped, j)"
| "group_case_loop (i # todo) n remaining_time max_len_trace rem added rem_time_grouped j =
     bindE (py_index remaining_time (int j)) (\<lambda>v.
       let rem = rem @ [v] in
       if int i = int max_len_trace - 1 then
         group_case_loop todo n remaining_time max_len_trace rem True
           (rem_time_grouped @ [rem]) (j + 1)
       else if int i = int n - 1 \<and> \<not> added then
         bindE (pad_last rem max_len_trace) (\<lambda>rem.
           group_case_loop todo n remaining_time max_len_trace rem added
             (rem_time_grouped @ [rem]) (j + 1))
       else
         group_case_loop todo n remaining_time max_len_trace rem added
           rem_time_grouped (j + 1))"

text \<open>The outer loop \<open>for ct in change_indexes\<close>; only the length of \<open>ct\<close> is used.\<close>

fun group_loop ::
  "nat list list \<Rightarrow> real list \<Rightarrow> nat \<Rightarrow> real list list \<Rightarrow> nat \<Rightarrow> error + real list list" where
  "group_loop [] remaining_time max_len_trace rem_time_grouped j = Inr rem_time_grouped"
| "group_loop (ct # rest) remaining_time max_len_trace rem_time_grouped j =
     bindE (group_case_loop [0..<length ct] (length ct) remaining_time max_len_trace
              [] False rem_time_grouped j)
       (\<lambda>(rem_time_grouped, j). group_loop rest remaining_time max_len_trace rem_time_grouped j)"

definition group_remaining_time ::
  "nat list list \<Rightarrow> real list \<Rightarrow> nat \<Rightarrow> error + real list list" where
  "group_remaining_time change_indexes remaining_time max_len_trace =
     group_loop change_indexes remaining_time max_len_trace [] 0"

section \<open>Event logs and option dictionaries\<close>

text \<open>
  The Python values that occur as event attributes and as entries of the \<open>parameters\<close>
  dictionary. A timestamp is its wall-clock reading (its date and time fields) in
  seconds, together with its UTC offset in seconds when it is offset-aware and \<open>None\<close>
  when it is naive; a time zone is taken to have one fixed offset.
\<close>

datatype pyval =
    PNone
  | PBool bool
  | PInt int
  | PFloat real
  | PStr string
  | PTime real "real option"
  | PList "pyval list"

text \<open>
  An event is a dictionary from attribute names to values, kept in insertion order; a
  trace is a list of events and a log a list of traces.
\<close>

type_synonym event = "(string \<times> pyval) list"
type_synonym trace = "event list"
type_synonym log = "trace list"

text \<open>
  In the definitions below the source's variable \<open>log\<close> is written \<open>elog\<close>, the name
  \<open>log\<close> being the logarithm in HOL.
\<close>
type_synonym parameters = "string \<rightharpoonup> pyval"

text \<open>
  \<open>event[key]\<close>: attribute names are strings, so any other hashable key is absent
  (KeyError) and a list, being unhashable, is a TypeError.
\<close>

definition event_get :: "event \<Rightarrow> pyval \<Rightarrow> error + pyval" where
  "event_get ev key =
     (case key of
        PStr k \<Rightarrow> (case map_of ev k of None \<Rightarrow> Inl KeyError | Some v \<Rightarrow> Inr v)
      | PList _ \<Rightarrow> Inl TypeError
      | _ \<Rightarrow> Inl KeyError)"

text \<open>Truth value of a Python object, as \<open>if business_hours:\<close> takes it.\<close>

fun truthy :: "pyval \<Rightarrow> bool" where
  "truthy PNone = False"
| "truthy (PBool b) = b"
| "truthy (PInt i) = (i \<noteq> 0)"
| "truthy (PFloat x) = (x \<noteq> 0)"
| "truthy (PStr s) = (s \<noteq> [])"
| "truthy (PTime t off) = True"
| "truthy (PList xs) = (xs \<noteq> [])"

text \<open>\<open>parameters[k] if k in parameters else d\<close>.\<close>

definition param_or :: "parameters \<Rightarrow> string \<Rightarrow> pyval \<Rightarrow> pyval" where
  "param_or parameters k d = (case parameters k of Some v \<Rightarrow> v | None \<Rightarrow> d)"

text \<open>
  \<open>(timestamp_et - timestamp_st).total_seconds()\<close>: two naive timestamps subtract
  as their readings, two offset-aware ones as their UTC instants, and a naive and an
  aware one do not subtract (TypeError); two numbers subtract to a number, which has
  no \<open>total_seconds\<close>; anything else does not subtract.
\<close>

fun is_number :: "pyval \<Rightarrow> bool" where
  "is_number (PBool _) = True"
| "is_number (PInt _) = True"
| "is_number (PFloat _) = True"
| "is_number _ = False"

definition total_seconds_between :: "pyval \<Rightarrow> pyval \<Rightarrow> error + real" where
  "total_seconds_between timestamp_et timestamp_st =
     (case (timestamp_et, timestamp_st) of
        (PTime et et_offset, PTime st st_offset) \<Rightarrow>
          (case (et_offset, st_offset) of
             (None, None) \<Rightarrow> Inr (et - st)
           | (Some eo, Some so) \<Rightarrow> Inr ((et - eo) - (st - so))
           | _ \<Rightarrow> Inl TypeError)
      | _ \<Rightarrow> if is_number timestamp_et \<and> is_number timestamp_st
              then Inl AttributeError else Inl TypeError)"

text \<open>
  \<open>timestamp.replace(tzinfo=None)\<close>: the naive timestamp with the same reading; a
  string has a \<open>replace\<close> that rejects the keyword, other values have none.
\<close>

definition replace_tzinfo_none :: "pyval \<Rightarrow> error + real" where
  "replace_tzinfo_none v =
     (case v of PTime t off \<Rightarrow> Inr t | PStr _ \<Rightarrow> Inl TypeError | PList _ \<Rightarrow> Inl AttributeError
      | _ \<Rightarrow> Inl AttributeError)"

section \<open>External collaborators\<close>

text \<open>
  The functions and constants the two adapters import from the log library, the
  business calendar and the regression libraries. They are parameters of the model:
  the key constants, Python's \<open>str\<close>, the business calendar
  (\<open>BusinessHours(st, et, worktiming=.., weekends=..).getseconds()\<close> on the readings of
  two naive timestamps), sorting by
  timestamp, attribute selection, prefix expansion, the tabular representation
  builder, the fit call of the elastic-net regressor and the fit and predict calls of the
  recurrent one (\<open>rnn_fit\<close> takes the number of LSTM units, the input shape, the
  number of Dense units, the tensor, the targets, the batch size and the epochs). The fitted regressors
  are values of the abstract types \<open>'enet\<close> and \<open>'rnn\<close>, the tabular matrix of \<open>'data\<close>.
\<close>

record ('data, 'enet, 'rnn) env =
  PARAMETER_CONSTANT_ACTIVITY_KEY :: string
  PARAMETER_CONSTANT_TIMESTAMP_KEY :: string
  DEFAULT_NAME_KEY :: string
  DEFAULT_TIMESTAMP_KEY :: string
  py_str :: "pyval \<Rightarrow> string"
  business_hours_getseconds :: "real \<Rightarrow> real \<Rightarrow> pyval \<Rightarrow> pyval \<Rightarrow> error + real"
  sort_timestamp :: "log \<Rightarrow> pyval \<Rightarrow> error + log"
  select_attributes_from_log_for_tree ::
    "log \<Rightarrow> error + (pyval list \<times> pyval list \<times> pyval list \<times> pyval list)"
  get_log_with_log_prefixes :: "log \<Rightarrow> error + (log \<times> nat list list)"
  get_representation ::
    "log \<Rightarrow> pyval \<Rightarrow> pyval \<Rightarrow> pyval \<Rightarrow> pyval \<Rightarrow> pyval \<Rightarrow> string list option
       \<Rightarrow> error + ('data \<times> string list)"
  elasticnet_fit :: "'data \<Rightarrow> pyval list \<Rightarrow> error + 'enet"
  rnn_fit ::
    "nat \<Rightarrow> nat \<times> nat \<Rightarrow> nat \<Rightarrow> real list list list \<Rightarrow> real list list \<Rightarrow> nat \<Rightarrow> pyval
       \<Rightarrow> error + 'rnn"
  rnn_predict :: "'rnn \<Rightarrow> real list list list \<Rightarrow> error + real list list"

section \<open>Label Extractor (elasticnet.py and keras\_rnn.py, identical)\<close>

text \<open>The options \<open>get_remaining_time_from_log\<close> and both \<open>train\<close> functions read.\<close>

definition timestamp_key_of :: "('data, 'enet, 'rnn) env \<Rightarrow> parameters \<Rightarrow> pyval" where
  "timestamp_key_of env parameters =
     param_or parameters (PARAMETER_CONSTANT_TIMESTAMP_KEY env) (PStr (DEFAULT_TIMESTAMP_KEY env))"

definition activity_key_of :: "('data, 'enet, 'rnn) env \<Rightarrow> parameters \<Rightarrow> pyval" where
  "activity_key_of env parameters =
     param_or parameters (PARAMETER_CONSTANT_ACTIVITY_KEY env) (PStr (DEFAULT_NAME_KEY env))"

definition business_hours_of :: "parameters \<Rightarrow> pyval" where
  "business_hours_of parameters = param_or parameters ''business_hours'' (PBool False)"

definition worktiming_of :: "parameters \<Rightarrow> pyval" where
  "worktiming_of parameters = param_or parameters ''worktiming'' (PList [PInt 7, PInt 17])"

definition weekends_of :: "parameters \<Rightarrow> pyval" where
  "weekends_of parameters = param_or parameters ''weekends'' (PList [PInt 6, PInt 7])"

text \<open>
  The remaining time between two timestamp values, by the business calendar when
  \<open>business_hours\<close> is set and by the clock otherwise.
\<close>

definition remaining_seconds ::
  "('data, 'enet, 'rnn) env \<Rightarrow> parameters \<Rightarrow> pyval \<Rightarrow> pyval \<Rightarrow> error + real" where
  "remaining_seconds env parameters timestamp_st timestamp_et =
     (if truthy (business_hours_of parameters) then
        bindE (replace_tzinfo_none timestamp_st) (\<lambda>st.
          bindE (replace_tzinfo_none timestamp_et) (\<lambda>et.
            business_hours_getseconds env st et
              (worktiming_of parameters) (weekends_of parameters)))
      else total_seconds_between timestamp_et timestamp_st)"

text \<open>
  The loop \<open>for index, event in enumerate(trace)\<close> with its \<open>break\<close> at
  \<open>max_len_trace\<close>; the list argument holds the indices still to visit and \<open>ys\<close> is
  \<open>y_orig[-1]\<close>.
\<close>

fun remaining_time_events ::
  "('data, 'enet, 'rnn) env \<Rightarrow> parameters \<Rightarrow> trace \<Rightarrow> nat \<Rightarrow> nat list \<Rightarrow> real list
     \<Rightarrow> error + real list" where
  "remaining_time_events env parameters trace max_len_trace [] ys = Inr ys"
| "remaining_time_events env parameters trace max_len_trace (index # todo) ys =
     (if index \<ge> max_len_trace then Inr ys
      else
        bindE (bindE (py_index trace (int index))
                 (\<lambda>ev. event_get ev (timestamp_key_of env parameters))) (\<lambda>timestamp_st.
        bindE (bindE (py_index trace (- 1))
                 (\<lambda>ev. event_get ev (timestamp_key_of env parameters))) (\<lambda>timestamp_et.
        bindE (remaining_seconds env parameters timestamp_st timestamp_et) (\<lambda>v.
          remaining_time_events env parameters trace max_len_trace todo (ys @ [v])))))"

text \<open>One round of the loop \<open>for trace in log\<close>: the events, then the padding.\<close>

definition remaining_time_trace ::
  "('data, 'enet, 'rnn) env \<Rightarrow> parameters \<Rightarrow> nat \<Rightarrow> trace \<Rightarrow> error + real list" where
  "remaining_time_trace env parameters max_len_trace trace =
     bindE (remaining_time_events env parameters trace max_len_trace [0..<length trace] [])
       (\<lambda>ys. pad_last ys max_len_trace)"

fun remaining_time_traces ::
  "('data, 'enet, 'rnn) env \<Rightarrow> parameters \<Rightarrow> nat \<Rightarrow> log \<Rightarrow> error + real list list" where
  "remaining_time_traces env parameters max_len_trace [] = Inr []"
| "remaining_time_traces env parameters max_len_trace (trace # rest) =
     bindE (remaining_time_trace env parameters max_len_trace trace) (\<lambda>ys.
       bindE (remaining_time_traces env parameters max_len_trace rest) (\<lambda>yss.
         Inr (ys # yss)))"

definition get_remaining_time_from_log ::
  "('data, 'enet, 'rnn) env \<Rightarrow> log \<Rightarrow> nat \<Rightarrow> parameters option \<Rightarrow> error + real list list" where
  "get_remaining_time_from_log env elog max_len_trace parameters =
     (let parameters = (case parameters of None \<Rightarrow> Map.empty | Some p \<Rightarrow> p)
      in remaining_time_traces env parameters max_len_trace elog)"

section \<open>Sequence Tensor Builder (keras\_rnn.py)\<close>

text \<open>
  The feature dictionary maps a descriptor to its column index; it is kept as an
  association list in insertion order, \<open>len(dictionary_features)\<close> being its length.
\<close>

type_synonym dictionary = "(string \<times> nat) list"

text \<open>\<open>ev_vector[k] = 1\<close>: an index outside the vector raises IndexError.\<close>

definition list_set :: "'a list \<Rightarrow> nat \<Rightarrow> 'a \<Rightarrow> error + 'a list" where
  "list_set xs k v = (if k < length xs then Inr (xs[k := v]) else Inl IndexError)"

text \<open>
  First inner loop \<open>for attribute_name in event\<close>: the descriptor
  \<open>event:<name>@<value>\<close>; the list argument holds the attribute names still to visit.
  Attribute names are strings, so \<open>str(attribute_name)\<close> is the name itself; \<open>str\<close>
  of a value is the parameter \<open>str\<close>.
\<close>

fun event_features ::
  "(pyval \<Rightarrow> string) \<Rightarrow> dictionary \<Rightarrow> event \<Rightarrow> string list \<Rightarrow> real list \<Rightarrow> error + real list"
  where
  "event_features str dictionary_features ev [] ev_vector = Inr ev_vector"
| "event_features str dictionary_features ev (attribute_name # todo) ev_vector =
     bindE (event_get ev (PStr attribute_name)) (\<lambda>attribute_value.
       let rep = ''event:'' @ attribute_name @ ''@'' @ str attribute_value in
       case map_of dictionary_features rep of
         Some k \<Rightarrow>
           bindE (list_set ev_vector k 1) (\<lambda>ev_vector.
             event_features str dictionary_features ev todo ev_vector)
       | None \<Rightarrow> event_features str dictionary_features ev todo ev_vector)"

text \<open>
  Second inner loop, run when the event is not the last of the trace: the descriptor
  \<open>succession:<name>@<value1>#<value2>\<close> for every attribute the next event has too.
\<close>

fun succession_features ::
  "(pyval \<Rightarrow> string) \<Rightarrow> dictionary \<Rightarrow> event \<Rightarrow> event \<Rightarrow> string list \<Rightarrow> real list
     \<Rightarrow> error + real list" where
  "succession_features str dictionary_features ev next_event [] ev_vector = Inr ev_vector"
| "succession_features str dictionary_features ev next_event (attribute_name # todo) ev_vector =
     (if map_of next_event attribute_name \<noteq> None then
        bindE (event_get ev (PStr attribute_name)) (\<lambda>attribute_value_1.
        bindE (event_get next_event (PStr attribute_name)) (\<lambda>attribute_value_2.
          let rep = ''succession:'' @ attribute_name @ ''@'' @ str attribute_value_1
                      @ ''#'' @ str attribute_value_2 in
          case map_of dictionary_features rep of
            Some k \<Rightarrow>
              bindE (list_set ev_vector k 1) (\<lambda>ev_vector.
                succession_features str dictionary_features ev next_event todo ev_vector)
          | None \<Rightarrow> succession_features str dictionary_features ev next_event todo ev_vector))
      else succession_features str dictionary_features ev next_event todo ev_vector)"

text \<open>The body of the loop over \<open>index\<close>: the feature vector of one event.\<close>

definition event_vector ::
  "(pyval \<Rightarrow> string) \<Rightarrow> dictionary \<Rightarrow> trace \<Rightarrow> nat \<Rightarrow> error + real list" where
  "event_vector str dictionary_features trace index =
     bindE (py_index trace (int index)) (\<lambda>ev.
       bindE (event_features str dictionary_features ev (map fst ev)
                (replicate (length dictionary_features) 0)) (\<lambda>ev_vector.
         if int index < int (length trace) - 1 then
           bindE (py_index trace (int index + 1)) (\<lambda>next_event.
             succession_features str dictionary_features ev next_event (map fst ev) ev_vector)
         else Inr ev_vector))"

text \<open>The loop \<open>for index in range(min(len(trace), max_len_trace))\<close>.\<close>

fun event_rows ::
  "(pyval \<Rightarrow> string) \<Rightarrow> dictionary \<Rightarrow> trace \<Rightarrow> nat list \<Rightarrow> real list list
     \<Rightarrow> error + real list list" where
  "event_rows str dictionary_features trace [] X = Inr X"
| "event_rows str dictionary_features trace (index # todo) X =
     bindE (event_vector str dictionary_features trace index) (\<lambda>ev_vector.
       event_rows str dictionary_features trace todo (X @ [ev_vector]))"

text \<open>
  The padding loop \<open>while j < max_len_trace: X.append(np.zeros(len(X[-1]))); j = j + 1\<close>.
\<close>

function pad_zero_rows :: "real list list \<Rightarrow> nat \<Rightarrow> nat \<Rightarrow> error + real list list" where
  "pad_zero_rows X j max_len_trace =
     (if j < max_len_trace
      then bindE (py_index X (- 1)) (\<lambda>last_row.
             pad_zero_rows (X @ [replicate (length last_row) 0]) (j + 1) max_len_trace)
      else Inr X)"
  by pat_completeness auto
termination
  by (relation "measure (\<lambda>(X, j, max_len_trace). max_len_trace - j)") auto

declare pad_zero_rows.simps [simp del]

text \<open>
  \<open>np.transpose(np.asmatrix(X)).tolist()\<close> of a list of rows of one width: one list per
  column. No rows, or rows of width zero, give a matrix without columns and so the
  empty list.
\<close>

definition np_transpose :: "real list list \<Rightarrow> real list list" where
  "np_transpose X =
     (case X of
        [] \<Rightarrow> []
      | row # _ \<Rightarrow> map (\<lambda>c. map (\<lambda>r. r ! c) X) [0..<length row])"

definition get_trace_rep_rnn ::
  "(pyval \<Rightarrow> string) \<Rightarrow> trace \<Rightarrow> dictionary \<Rightarrow> nat \<Rightarrow> error + real list list" where
  "get_trace_rep_rnn str trace dictionary_features max_len_trace =
     bindE (event_rows str dictionary_features trace
              [0..<min (length trace) max_len_trace] []) (\<lambda>X.
       bindE (pad_zero_rows X (length trace) max_len_trace) (\<lambda>X.
         Inr (np_transpose X)))"

text \<open>\<open>get_log_rep_rnn\<close>: a representation is kept when it is a non-empty list.\<close>

fun get_log_rep_rnn ::
  "(pyval \<Rightarrow> string) \<Rightarrow> log \<Rightarrow> dictionary \<Rightarrow> nat \<Rightarrow> error + real list list list" where
  "get_log_rep_rnn str [] dictionary_features max_len_trace = Inr []"
| "get_log_rep_rnn str (trace # rest) dictionary_features max_len_trace =
     bindE (get_trace_rep_rnn str trace dictionary_features max_len_trace) (\<lambda>rep.
       bindE (get_log_rep_rnn str rest dictionary_features max_len_trace) (\<lambda>X.
         Inr (if rep \<noteq> [] then rep # X else X)))"

text \<open>
  \<open>get_X_from_log\<close>: the dictionary is filled by \<open>dictionary_features[value] = index\<close>
  over \<open>enumerate(feature_names)\<close>, a later index replacing an earlier one of the same
  name.
\<close>

fun fill_dictionary :: "(nat \<times> string) list \<Rightarrow> dictionary \<Rightarrow> dictionary" where
  "fill_dictionary [] dictionary_features = dictionary_features"
| "fill_dictionary ((index, v) # todo) dictionary_features =
     fill_dictionary todo (AList.update v index dictionary_features)"

definition get_X_from_log ::
  "(pyval \<Rightarrow> string) \<Rightarrow> log \<Rightarrow> string list \<Rightarrow> nat \<Rightarrow> error + real list list list" where
  "get_X_from_log str elog feature_names max_len_trace =
     (let dictionary_features = fill_dictionary (enumerate 0 feature_names) []
      in get_log_rep_rnn str elog dictionary_features max_len_trace)"

text \<open>
  \<open>np.array(X).shape\<close> for the stacked representations, which all have the same
  number of rows and of columns.
\<close>

definition np_shape :: "real list list list \<Rightarrow> nat list" where
  "np_shape X =
     (case X of
        [] \<Rightarrow> [0]
      | rep # _ \<Rightarrow>
          (case rep of
             [] \<Rightarrow> [length X, 0]
           | row # _ \<Rightarrow> [length X, length rep, length row]))"

section \<open>The two adapters\<close>

text \<open>
  \<open>train\<close> writes into the dictionary object it is given, so the dictionaries live in
  a store: a parameters argument is \<open>None\<close> or the address of a dictionary, and
  \<open>train\<close> returns the store it leaves behind next to its result.
  \<open>enter_parameters\<close> is \<open>if parameters is None: parameters = {}\<close>, which allocates
  a new dictionary.
\<close>

type_synonym heap = "parameters list"

definition enter_parameters :: "nat option \<Rightarrow> heap \<Rightarrow> nat \<times> heap" where
  "enter_parameters parameters heap =
     (case parameters of
        None \<Rightarrow> (length heap, heap @ [Map.empty])
      | Some a \<Rightarrow> (a, heap))"

text \<open>A loop that appends one computed value per element and stops at the first error.\<close>

fun mapE :: "('a \<Rightarrow> error + 'b) \<Rightarrow> 'a list \<Rightarrow> error + 'b list" where
  "mapE f [] = Inr []"
| "mapE f (x # xs) = bindE (f x) (\<lambda>y. bindE (mapE f xs) (\<lambda>ys. Inr (y # ys)))"

text \<open>
  The attribute groups: taken from the options when \<open>str_ev_attr\<close> is among them,
  from the selection heuristic otherwise, the activity key being added to the string
  event attributes when it is not there (\<open>not in\<close> is membership up to equality of
  the values).
\<close>

definition resolve_attributes ::
  "('data, 'enet, 'rnn) env \<Rightarrow> parameters \<Rightarrow> log \<Rightarrow> pyval
     \<Rightarrow> error + (pyval \<times> pyval \<times> pyval \<times> pyval)" where
  "resolve_attributes env parameters elog activity_key =
     (if parameters ''str_ev_attr'' \<noteq> None then
        Inr (param_or parameters ''str_tr_attr'' (PList []),
             param_or parameters ''str_ev_attr'' (PList []),
             param_or parameters ''num_tr_attr'' (PList []),
             param_or parameters ''num_ev_attr'' (PList []))
      else
        bindE (select_attributes_from_log_for_tree env elog)
          (\<lambda>(str_tr_attr, str_ev_attr, num_tr_attr, num_ev_attr).
             let str_ev_attr =
                   (if activity_key \<notin> set str_ev_attr then str_ev_attr @ [activity_key]
                    else str_ev_attr)
             in Inr (PList str_tr_attr, PList str_ev_attr, PList num_tr_attr, PList num_ev_attr)))"

subsection \<open>Elastic-net adapter (elasticnet.py)\<close>

text \<open>Iterating over a Python value: a list gives its elements, a string its characters.\<close>

fun py_iter :: "pyval \<Rightarrow> error + pyval list" where
  "py_iter (PList xs) = Inr xs"
| "py_iter (PStr s) = Inr (map (\<lambda>c. PStr [c]) s)"
| "py_iter _ = Inl TypeError"

text \<open>\<open>[y for x in y_orig for y in x]\<close>.\<close>

definition flatten_labels :: "pyval \<Rightarrow> error + pyval list" where
  "flatten_labels y_orig =
     bindE (py_iter y_orig) (\<lambda>xs. bindE (mapE py_iter xs) (\<lambda>yss. Inr (concat yss)))"

text \<open>The label of one trace of the expanded log, in the business-hours loop.\<close>

definition business_label ::
  "('data, 'enet, 'rnn) env \<Rightarrow> parameters \<Rightarrow> trace \<Rightarrow> error + pyval" where
  "business_label env parameters trace =
     (if trace \<noteq> [] then
        bindE (bindE (py_index trace (- 1))
                 (\<lambda>ev. event_get ev (timestamp_key_of env parameters))) (\<lambda>timestamp_et.
        bindE (bindE (py_index trace 0)
                 (\<lambda>ev. event_get ev (timestamp_key_of env parameters))) (\<lambda>timestamp_st.
        bindE (replace_tzinfo_none timestamp_st) (\<lambda>st.
        bindE (replace_tzinfo_none timestamp_et) (\<lambda>et.
        bindE (business_hours_getseconds env st et
                 (worktiming_of parameters) (weekends_of parameters)) (\<lambda>v.
          Inr (PFloat v))))))
      else Inr (PInt 0))"

text \<open>The label of one trace of the expanded log, in the wall-clock loop.\<close>

definition clock_label ::
  "('data, 'enet, 'rnn) env \<Rightarrow> parameters \<Rightarrow> trace \<Rightarrow> error + pyval" where
  "clock_label env parameters trace =
     (if trace \<noteq> [] then
        bindE (bindE (py_index trace (- 1))
                 (\<lambda>ev. event_get ev (timestamp_key_of env parameters))) (\<lambda>timestamp_et.
        bindE (bindE (py_index trace 0)
                 (\<lambda>ev. event_get ev (timestamp_key_of env parameters))) (\<lambda>timestamp_st.
        bindE (total_seconds_between timestamp_et timestamp_st) (\<lambda>v.
          Inr (PFloat v))))
      else Inr (PInt 0))"

text \<open>Lines 103 to 124 of \<open>train\<close>: the labels of the expanded log.\<close>

definition elasticnet_remaining_time ::
  "('data, 'enet, 'rnn) env \<Rightarrow> parameters \<Rightarrow> pyval \<Rightarrow> log \<Rightarrow> error + pyval list" where
  "elasticnet_remaining_time env parameters y_orig ext_log =
     (if y_orig \<noteq> PNone then flatten_labels y_orig
      else if truthy (business_hours_of parameters)
      then mapE (business_label env parameters) ext_log
      else mapE (clock_label env parameters) ext_log)"

record 'enet elasticnet_model =
  en_str_tr_attr :: pyval
  en_str_ev_attr :: pyval
  en_num_tr_attr :: pyval
  en_num_ev_attr :: pyval
  en_str_evsucc_attr :: pyval
  en_feature_names :: "string list"
  en_remaining_time :: "pyval list"
  en_regr :: 'enet
  en_variant :: string

text \<open>\<open>train\<close> after the write to \<open>parameters\<close>, which it only reads from then on.\<close>

definition elasticnet_train_body ::
  "('data, 'enet, 'rnn) env \<Rightarrow> log \<Rightarrow> parameters \<Rightarrow> error + 'enet elasticnet_model" where
  "elasticnet_train_body env elog parameters =
     (let activity_key = activity_key_of env parameters;
          timestamp_key = timestamp_key_of env parameters;
          y_orig = param_or parameters ''y_orig'' PNone
      in
      bindE (sort_timestamp env elog timestamp_key) (\<lambda>elog.
      let str_evsucc_attr = PList [activity_key] in
      bindE (resolve_attributes env parameters elog activity_key)
        (\<lambda>(str_tr_attr, str_ev_attr, num_tr_attr, num_ev_attr).
      bindE (get_log_with_log_prefixes env elog) (\<lambda>(ext_log, change_indexes).
      bindE (get_representation env ext_log str_tr_attr str_ev_attr num_tr_attr num_ev_attr
               str_evsucc_attr None) (\<lambda>(data, feature_names).
      bindE (elasticnet_remaining_time env parameters y_orig ext_log) (\<lambda>remaining_time.
      bindE (elasticnet_fit env data remaining_time) (\<lambda>regr.
        Inr \<lparr>en_str_tr_attr = str_tr_attr, en_str_ev_attr = str_ev_attr,
             en_num_tr_attr = num_tr_attr, en_num_ev_attr = num_ev_attr,
             en_str_evsucc_attr = str_evsucc_attr, en_feature_names = feature_names,
             en_remaining_time = remaining_time, en_regr = regr,
             en_variant = ''elasticnet''\<rparr>)))))))"

definition elasticnet_train ::
  "('data, 'enet, 'rnn) env \<Rightarrow> log \<Rightarrow> nat option \<Rightarrow> heap
     \<Rightarrow> heap \<times> (error + 'enet elasticnet_model)" where
  "elasticnet_train env elog parameters heap =
     (let (a, heap) = enter_parameters parameters heap;
          heap = heap[a := (heap ! a)(''enable_sort'' \<mapsto> PBool False)]
      in (heap, elasticnet_train_body env elog (heap ! a)))"

subsection \<open>Sequence-model adapter (keras\_rnn.py)\<close>

text \<open>\<open>max([len(trace) for trace in log])\<close>, a ValueError on the empty log.\<close>

definition max_trace_length :: "log \<Rightarrow> error + nat" where
  "max_trace_length elog =
     (case map length elog of [] \<Rightarrow> Inl ValueError | n # ns \<Rightarrow> Inr (fold max ns n))"

text \<open>
  A caller-supplied \<open>y_orig\<close> goes to \<open>normalize_remaining_time\<close>, which takes maxima
  of its elements and adds floats to them: it has to be a list of lists of numbers.
\<close>

fun number_of :: "pyval \<Rightarrow> error + real" where
  "number_of (PFloat x) = Inr x"
| "number_of (PInt i) = Inr (real_of_int i)"
| "number_of (PBool b) = Inr (if b then 1 else 0)"
| "number_of _ = Inl TypeError"

definition labels_of :: "pyval \<Rightarrow> error + real list list" where
  "labels_of y_orig =
     bindE (py_iter y_orig) (mapE (\<lambda>x. bindE (py_iter x) (mapE number_of)))"

text \<open>
  The Keras model: \<open>LSTM(hidden_neurons, input_shape=input_shape)\<close>,
  \<open>Dense(in_out_neurons)\<close>, a linear activation, and what \<open>fit\<close> leaves in it.
\<close>

record 'rnn sequential =
  hidden_neurons :: nat
  input_shape :: "nat \<times> nat"
  in_out_neurons :: nat
  fitted :: 'rnn

record 'rnn keras_model =
  km_str_tr_attr :: pyval
  km_str_ev_attr :: pyval
  km_num_tr_attr :: pyval
  km_num_ev_attr :: pyval
  km_str_evsucc_attr :: pyval
  km_feature_names :: "string list"
  km_regr :: "'rnn sequential"
  km_max_len_trace :: nat
  km_log_max_value :: real
  km_variant :: string

text \<open>\<open>min(int(in_out_neurons * 7.5), 50)\<close>; \<open>int\<close> of a float drops the fraction.\<close>

definition hidden_neurons_of :: "nat \<Rightarrow> nat" where
  "hidden_neurons_of n = min (nat \<lfloor>real n * 7.5\<rfloor>) 50"

definition keras_train_body ::
  "('data, 'enet, 'rnn) env \<Rightarrow> log \<Rightarrow> parameters \<Rightarrow> pyval \<Rightarrow> error + 'rnn keras_model" where
  "keras_train_body env elog parameters default_epochs =
     (let activity_key = activity_key_of env parameters in
      bindE (max_trace_length elog) (\<lambda>max_len_trace.
      bindE (case parameters ''y_orig'' of
               Some y_orig \<Rightarrow> labels_of y_orig
             | None \<Rightarrow> get_remaining_time_from_log env elog max_len_trace (Some parameters))
        (\<lambda>y_orig.
      bindE (normalize_remaining_time y_orig) (\<lambda>(y, log_max_value).
      let str_evsucc_attr = PList [activity_key] in
      bindE (resolve_attributes env parameters elog activity_key)
        (\<lambda>(str_tr_attr, str_ev_attr, num_tr_attr, num_ev_attr).
      bindE (get_representation env elog str_tr_attr str_ev_attr num_tr_attr num_ev_attr
               str_evsucc_attr None) (\<lambda>(data, feature_names).
      bindE (get_X_from_log (py_str env) elog feature_names max_len_trace) (\<lambda>X.
      bindE (py_index (np_shape X) 2) (\<lambda>in_out.
      let hidden = hidden_neurons_of in_out in
      bindE (py_index (np_shape X) 1) (\<lambda>shape_1.
      bindE (rnn_fit env hidden (shape_1, in_out) in_out X y shape_1 default_epochs) (\<lambda>regr.
        Inr \<lparr>km_str_tr_attr = str_tr_attr, km_str_ev_attr = str_ev_attr,
             km_num_tr_attr = num_tr_attr, km_num_ev_attr = num_ev_attr,
             km_str_evsucc_attr = str_evsucc_attr, km_feature_names = feature_names,
             km_regr = \<lparr>hidden_neurons = hidden, input_shape = (shape_1, in_out),
                         in_out_neurons = in_out, fitted = regr\<rparr>,
             km_max_len_trace = max_len_trace, km_log_max_value = log_max_value,
             km_variant = ''keras_rnn''\<rparr>))))))))))"

definition keras_train ::
  "('data, 'enet, 'rnn) env \<Rightarrow> log \<Rightarrow> nat option \<Rightarrow> heap
     \<Rightarrow> heap \<times> (error + 'rnn keras_model)" where
  "keras_train env elog parameters heap =
     (let (a, heap) = enter_parameters parameters heap;
          default_epochs = param_or (heap ! a) ''default_epochs'' (PInt 50);
          heap = heap[a := (heap ! a)(''enable_sort'' \<mapsto> PBool False)]
      in (heap, keras_train_body env elog (heap ! a) default_epochs))"

text \<open>
  \<open>test\<close>: the object is a log or a single trace, the prediction a number for a log
  of one trace and a list otherwise. Its \<open>parameters\<close> argument is never read and is
  left out.
\<close>

datatype test_obj = ObjEventLog log | ObjTrace trace

datatype prediction = Scalar real | Predictions "real list"

text \<open>The loop \<open>for index, trace in enumerate(log)\<close> of \<open>test\<close>.\<close>

fun keras_test_loop ::
  "real list list \<Rightarrow> real \<Rightarrow> (nat \<times> trace) list \<Rightarrow> real list \<Rightarrow> error + real list" where
  "keras_test_loop y log_max_value [] ret = Inr ret"
| "keras_test_loop y log_max_value ((index, trace) # todo) ret =
     bindE (py_index y (int index)) (\<lambda>row.
       bindE (py_index row (int (length trace) - 1)) (\<lambda>v.
         keras_test_loop y log_max_value todo (ret @ [reconstruct_value v log_max_value])))"

definition keras_test ::
  "('data, 'enet, 'rnn) env \<Rightarrow> 'rnn keras_model \<Rightarrow> test_obj \<Rightarrow> error + prediction" where
  "keras_test env model obj =
     (let feature_names = km_feature_names model;
          regr = km_regr model;
          max_len_trace = km_max_len_trace model;
          log_max_value = km_log_max_value model;
          elog = (case obj of ObjEventLog l \<Rightarrow> l | ObjTrace t \<Rightarrow> [t])
      in
      bindE (get_X_from_log (py_str env) elog feature_names max_len_trace) (\<lambda>X.
      bindE (rnn_predict env (fitted regr) X) (\<lambda>y.
        if length elog = 1 then
          bindE (py_index y 0) (\<lambda>row.
          bindE (py_index elog 0) (\<lambda>trace.
          bindE (py_index row (int (length trace) - 1)) (\<lambda>v.
            Inr (Scalar (reconstruct_value v log_max_value)))))
        else
          bindE (keras_test_loop y log_max_value (enumerate 0 elog) [])
            (\<lambda>ret. Inr (Predictions ret)))))"

section \<open>Vocabulary of the statements\<close>

text \<open>
  The sequence \<open>group_remaining_time\<close> is to produce for the case that starts at
  position \<open>j0\<close> of the flat list and has \<open>n\<close> entries: its own values, the last
  of them repeated up to \<open>max_len_trace\<close>.
\<close>

definition padded_case :: "real list \<Rightarrow> nat \<Rightarrow> nat \<Rightarrow> nat \<Rightarrow> real list" where
  "padded_case rt j0 n L = map (\<lambda>i. rt ! (j0 + min i (n - 1))) [0..<L]"

text \<open>
  The value an event carries under the timestamp key; the UTC instant and the
  wall-clock reading of a timestamp; the two for the timestamp of an event.
\<close>

definition timestamp_of :: "('data, 'enet, 'rnn) env \<Rightarrow> parameters \<Rightarrow> event \<Rightarrow> pyval" where
  "timestamp_of env parameters ev =
     (case event_get ev (timestamp_key_of env parameters) of Inr v \<Rightarrow> v | Inl e \<Rightarrow> PNone)"

fun instant_of :: "pyval \<Rightarrow> real" where
  "instant_of (PTime t None) = t"
| "instant_of (PTime t (Some off)) = t - off"
| "instant_of v = 0"

fun reading_of :: "pyval \<Rightarrow> real" where
  "reading_of (PTime t off) = t"
| "reading_of v = 0"

definition time_of :: "('data, 'enet, 'rnn) env \<Rightarrow> parameters \<Rightarrow> event \<Rightarrow> real" where
  "time_of env parameters ev = instant_of (timestamp_of env parameters ev)"

definition wall_time_of :: "('data, 'enet, 'rnn) env \<Rightarrow> parameters \<Rightarrow> event \<Rightarrow> real" where
  "wall_time_of env parameters ev = reading_of (timestamp_of env parameters ev)"

text \<open>
  A trace is \<open>timestamped\<close> when all its events carry a timestamp under the timestamp
  key, and \<open>comparable\<close> when these are all naive or all offset-aware.
\<close>

definition timestamped :: "('data, 'enet, 'rnn) env \<Rightarrow> parameters \<Rightarrow> trace \<Rightarrow> bool" where
  "timestamped env parameters trace =
     (\<forall>ev\<in>set trace. \<exists>t off.
         event_get ev (timestamp_key_of env parameters) = Inr (PTime t off))"

definition comparable :: "('data, 'enet, 'rnn) env \<Rightarrow> parameters \<Rightarrow> trace \<Rightarrow> bool" where
  "comparable env parameters trace =
     ((\<forall>ev\<in>set trace. \<exists>t.
          event_get ev (timestamp_key_of env parameters) = Inr (PTime t None))
      \<or> (\<forall>ev\<in>set trace. \<exists>t off.
          event_get ev (timestamp_key_of env parameters) = Inr (PTime t (Some off))))"

text \<open>
  The value that \<open>remaining_seconds\<close> returns for event \<open>i\<close> and the last event of a
  trace, used in the proofs about the Label Extractor.
\<close>

definition label_of ::
  "('data, 'enet, 'rnn) env \<Rightarrow> parameters \<Rightarrow> trace \<Rightarrow> nat \<Rightarrow> real" where
  "label_of env parameters trace i =
     projr (remaining_seconds env parameters
              (timestamp_of env parameters (trace ! i))
              (timestamp_of env parameters (last trace)))"

text \<open>The business calendar answers for every pair of timestamps.\<close>

definition calendar_total :: "('data, 'enet, 'rnn) env \<Rightarrow> parameters \<Rightarrow> bool" where
  "calendar_total env parameters =
     (\<forall>st et. \<not> isl (business_hours_getseconds env st et
                         (worktiming_of parameters) (weekends_of parameters)))"

text \<open>
  A feature dictionary whose column indices lie below its size, as the one
  \<open>get_X_from_log\<close> builds from distinct feature names does; a row of zeros and ones;
  rows of one width that are such.
\<close>

definition wf_dictionary :: "dictionary \<Rightarrow> bool" where
  "wf_dictionary d = (\<forall>k\<in>snd ` set d. k < length d)"

definition binary_row :: "real list \<Rightarrow> bool" where
  "binary_row v = (\<forall>x\<in>set v. x = 0 \<or> x = 1)"

definition tensor_rows :: "nat \<Rightarrow> real list list \<Rightarrow> bool" where
  "tensor_rows w X = (\<forall>row\<in>set X. length row = w \<and> binary_row row)"

text \<open>The log \<open>test\<close> works on: the log it is given, or the one trace wrapped in a log.\<close>

definition log_of :: "test_obj \<Rightarrow> log" where
  "log_of obj = (case obj of ObjEventLog l \<Rightarrow> l | ObjTrace t \<Rightarrow> [t])"

text \<open>
  What a call leaves in the store when all it writes is \<open>enable_sort = False\<close> into
  the dictionary at address \<open>a\<close>: that entry is set, every other entry of the
  dictionary and every other dictionary are as before.
\<close>

definition only_enable_sort_written :: "heap \<Rightarrow> nat \<Rightarrow> heap \<Rightarrow> bool" where
  "only_enable_sort_written heap a h =
     (length h = length heap
      \<and> (h ! a) ''enable_sort'' = Some (PBool False)
      \<and> (\<forall>k. k \<noteq> ''enable_sort'' \<longrightarrow> (h ! a) k = (heap ! a) k)
      \<and> (\<forall>b<length heap. b \<noteq> a \<longrightarrow> h ! b = heap ! b))"

section \<open>An instance of the collaborators, for the examples\<close>

text \<open>
  Concrete collaborators on which the adapters can be run: \<open>str\<close> on strings, a
  calendar that counts every second, a sort that leaves the log as it is, no selected
  attributes, a prefix expansion that emits for every event of a trace the events
  before it (the first prefix of a trace is empty, the case \<open>train\<close> guards with
  \<open>if trace\<close>), as feature names the event and succession descriptors of the activity
  names that occur in the log, and regressors that learn nothing and answer every
  trace with the same output row.
\<close>

definition example_str :: "pyval \<Rightarrow> string" where
  "example_str v = (case v of PStr s \<Rightarrow> s | _ \<Rightarrow> [])"

fun example_change_indexes :: "nat \<Rightarrow> log \<Rightarrow> nat list list" where
  "example_change_indexes j [] = []"
| "example_change_indexes j (trace # rest) =
     [j..<j + length trace] # example_change_indexes (j + length trace) rest"

definition example_prefixes :: "log \<Rightarrow> log \<times> nat list list" where
  "example_prefixes elog =
     (concat (map (\<lambda>trace. map (\<lambda>k. take k trace) [0..<length trace]) elog),
      example_change_indexes 0 elog)"

fun activity_descriptors :: "string list \<Rightarrow> string list" where
  "activity_descriptors [] = []"
| "activity_descriptors [a] = [''event:concept:name@'' @ a]"
| "activity_descriptors (a # b # rest) =
     (''event:concept:name@'' @ a) # (''succession:concept:name@'' @ a @ ''#'' @ b)
       # activity_descriptors (b # rest)"

definition example_feature_names :: "log \<Rightarrow> string list" where
  "example_feature_names elog =
     remdups (concat (map (\<lambda>trace.
        activity_descriptors
          (map (\<lambda>ev. case map_of ev ''concept:name'' of Some v \<Rightarrow> example_str v | None \<Rightarrow> []) trace))
        elog))"

definition example_env :: "(unit, unit, unit) env" where
  "example_env =
     \<lparr>PARAMETER_CONSTANT_ACTIVITY_KEY = ''pm4py:param:activity_key'',
      PARAMETER_CONSTANT_TIMESTAMP_KEY = ''pm4py:param:timestamp_key'',
      DEFAULT_NAME_KEY = ''concept:name'',
      DEFAULT_TIMESTAMP_KEY = ''time:timestamp'',
      py_str = example_str,
      business_hours_getseconds = (\<lambda>st et worktiming weekends. Inr (et - st)),
      sort_timestamp = (\<lambda>elog timestamp_key. Inr elog),
      select_attributes_from_log_for_tree = (\<lambda>elog. Inr ([], [], [], [])),
      get_log_with_log_prefixes = (\<lambda>elog. Inr (example_prefixes elog)),
      get_representation =
        (\<lambda>elog str_tr_attr str_ev_attr num_tr_attr num_ev_attr str_evsucc_attr feature_names.
           Inr ((), example_feature_names elog)),
      elasticnet_fit = (\<lambda>data remaining_time. Inr ()),
      rnn_fit = (\<lambda>hidden shape in_out X y batch_size nb_epoch. Inr ()),
      rnn_predict = (\<lambda>regr X. Inr (map (\<lambda>rep. [- 3, 1 / 2, 0, 1 / 2]) X))\<rparr>"

text \<open>
  An event with an activity name and a naive timestamp, and a trace of three of them.
\<close>

definition example_event :: "string \<Rightarrow> real \<Rightarrow> event" where
  "example_event a t = [(''concept:name'', PStr a), (''time:timestamp'', PTime t None)]"

definition example_trace :: trace where
  "example_trace = [example_event ''A'' 0, example_event ''B'' 5, example_event ''A'' 12]"

text \<open>A model bundle as \<open>train\<close> returns it for a log whose longest trace has four events.\<close>

definition example_model :: "unit keras_model" where
  "example_model =
     \<lparr>km_str_tr_attr = PList [], km_str_ev_attr = PList [PStr ''concept:name''],
      km_num_tr_attr = PList [], km_num_ev_attr = PList [],
      km_str_evsucc_attr = PList [PStr ''concept:name''],
      km_feature_names =
        [''succession:concept:name@B#A'', ''event:concept:name@A'',
         ''succession:concept:name@A#B'', ''event:concept:name@B''],
      km_regr = \<lparr>hidden_neurons = 30, input_shape = (4, 4), in_out_neurons = 4, fitted = ()\<rparr>,
      km_max_len_trace = 4, km_log_max_value = ln 21, km_variant = ''keras_rnn''\<rparr>"

section \<open>Basic facts\<close>

lemma bindE_Inr [simp]: "bindE (Inr v) f = f v"
  by (simp add: bindE_def)

lemma bindE_Inl [simp]: "bindE (Inl e) f = Inl e"
  by (simp add: bindE_def)

section \<open>Normalisation and its inverse\<close>

lemma fold_max_ge: "(m::real) \<le> fold max xs m \<and> (\<forall>v\<in>set xs. v \<le> fold max xs m)"
proof (induction xs arbitrary: m)
  case Nil
  show ?case by simp
next
  case (Cons x xs)
  have a: "max x m \<le> fold max xs (max x m)" and b: "\<forall>v\<in>set xs. v \<le> fold max xs (max x m)"
    using Cons.IH[of "max x m"] by auto
  from a have "m \<le> fold max xs (max x m)" "x \<le> fold max xs (max x m)" by linarith+
  with b show ?case by simp
qed

lemma py_max_ge: "py_max lst = Inr m \<Longrightarrow> lst \<noteq> [] \<and> (\<forall>v\<in>set lst. v \<le> m)"
  using fold_max_ge by (cases lst) auto

lemma max_value_loop_ge:
  "max_value_loop rem m = Inr mv \<Longrightarrow>
     m \<le> mv \<and> (\<forall>lst\<in>set rem. lst \<noteq> [] \<and> (\<forall>v\<in>set lst. v \<le> mv))"
proof (induction rem arbitrary: m)
  case Nil
  then show ?case by simp
next
  case (Cons lst rest)
  from Cons.prems obtain ml where ml: "py_max lst = Inr ml"
    and rest: "max_value_loop rest (max m ml) = Inr mv"
    by (auto simp: bindE_def split: sum.splits)
  from Cons.IH[OF rest] have ih: "max m ml \<le> mv"
    "\<forall>l\<in>set rest. l \<noteq> [] \<and> (\<forall>v\<in>set l. v \<le> mv)" by auto
  from py_max_ge[OF ml] have "lst \<noteq> []" "\<forall>v\<in>set lst. v \<le> ml" by auto
  with ih show ?case by fastforce
qed

lemma normalize_list_ok:
  "lmv \<noteq> 0 \<Longrightarrow> \<forall>v\<in>set lst. - 1 < v \<Longrightarrow>
     normalize_list lmv lst = Inr (map (\<lambda>v. - 1 + 2 * (ln (v + 1) / lmv)) lst)"
  by (induction lst) (auto simp: bindE_def math_log_def)

lemma normalize_lists_ok:
  "lmv \<noteq> 0 \<Longrightarrow> \<forall>lst\<in>set rem. \<forall>v\<in>set lst. - 1 < v \<Longrightarrow>
     normalize_lists lmv rem = Inr (map (map (\<lambda>v. - 1 + 2 * (ln (v + 1) / lmv))) rem)"
  by (induction rem) (auto simp: bindE_def normalize_list_ok)

lemma reconstruct_normalized:
  assumes "0 < lmv" "0 \<le> v"
  shows "reconstruct_value (- 1 + 2 * (ln (v + 1) / lmv)) lmv = v"
proof -
  have "0 \<le> ln (v + 1)" using assms by simp
  then have "0 \<le> ln (v + 1) / lmv" using assms by simp
  then have nc: "\<not> (- 1 + 2 * (ln (v + 1) / lmv) < - 1)" by linarith
  have "(- 1 + 2 * (ln (v + 1) / lmv) + 1) / 2 * lmv = ln (v + 1)"
    using assms by (simp add: field_simps)
  then show ?thesis using nc assms by (simp add: reconstruct_value_def Let_def)
qed

text \<open>
  Claim C1. Denormalisation inverts normalisation. Let \<open>max_v\<close> be the global maximum
  that \<open>normalize_remaining_time\<close> finds in the grouped sequences, let it be positive
  and let no value be negative. Then the function returns the normalised lists
  together with \<open>log_max_value = ln (1 + max_v)\<close>, every value \<open>v\<close> is normalised to
  \<open>-1 + 2 * ln (1 + v) / ln (1 + max_v)\<close> and lies in \<open>[0, max_v]\<close>, and
  \<open>reconstruct_value\<close> applied to the normalised value and \<open>log_max_value\<close> gives \<open>v\<close>
  back, exactly, over the real numbers.
\<close>

theorem normalize_round_trip:
  assumes "max_value_loop rem (- 10000000) = Inr max_v"
    and "0 < max_v"
    and "\<forall>lst\<in>set rem. \<forall>v\<in>set lst. 0 \<le> v"
  shows "\<exists>ret. normalize_remaining_time rem = Inr (ret, ln (1 + max_v))
           \<and> ret = map (map (\<lambda>v. - 1 + 2 * (ln (1 + v) / ln (1 + max_v)))) rem
           \<and> (\<forall>k<length rem. \<forall>i<length (rem ! k).
                 rem ! k ! i \<le> max_v
               \<and> reconstruct_value (ret ! k ! i) (ln (1 + max_v)) = rem ! k ! i)"
proof -
  let ?lmv = "ln (1 + max_v)"
  have pos: "0 < ?lmv" using assms(2) by simp
  have ml: "math_log (1 + max_v) = Inr ?lmv" using assms(2) by (simp add: math_log_def)
  have gt: "\<forall>lst\<in>set rem. \<forall>v\<in>set lst. - 1 < v" using assms(3) by fastforce
  have nl: "normalize_lists ?lmv rem = Inr (map (map (\<lambda>v. - 1 + 2 * (ln (v + 1) / ?lmv))) rem)"
    using normalize_lists_ok[OF _ gt, of ?lmv] pos by simp
  have nrt: "normalize_remaining_time rem
      = Inr (map (map (\<lambda>v. - 1 + 2 * (ln (v + 1) / ?lmv))) rem, ?lmv)"
    by (simp add: normalize_remaining_time_def bindE_def assms(1) ml nl)
  have rt: "\<forall>k<length rem. \<forall>i<length (rem ! k). rem ! k ! i \<le> max_v \<and>
      reconstruct_value (map (map (\<lambda>v. - 1 + 2 * (ln (v + 1) / ?lmv))) rem ! k ! i) ?lmv = rem ! k ! i"
  proof (intro allI impI)
    fix k i assume k: "k < length rem" and i: "i < length (rem ! k)"
    then have mem: "rem ! k \<in> set rem" "rem ! k ! i \<in> set (rem ! k)" by simp_all
    then have "0 \<le> rem ! k ! i" using assms(3) by blast
    moreover have "rem ! k ! i \<le> max_v" using max_value_loop_ge[OF assms(1)] mem by blast
    ultimately show "rem ! k ! i \<le> max_v \<and>
      reconstruct_value (map (map (\<lambda>v. - 1 + 2 * (ln (v + 1) / ?lmv))) rem ! k ! i) ?lmv = rem ! k ! i"
      using k i reconstruct_normalized[OF pos] by simp
  qed
  show ?thesis using nrt rt by (simp add: add.commute)
qed

theorem normalize_round_trip_witness:
  "max_value_loop [[1, 0]] (- 10000000) = Inr 1 \<and> (0::real) < 1
   \<and> list_all (list_all (\<lambda>v. 0 \<le> v)) [[1, 0::real]]
   \<and> (\<exists>ret. normalize_remaining_time [[1, 0]] = Inr (ret, ln (1 + 1))
           \<and> reconstruct_value (ret ! 0 ! 0) (ln (1 + 1)) = 1
           \<and> reconstruct_value (ret ! 0 ! 1) (ln (1 + 1)) = 0)"
proof -
  have h1: "max_value_loop [[1, 0]] (- 10000000) = Inr 1" by (simp add: bindE_def)
  have h2: "(0::real) < 1" by simp
  have h3: "\<forall>lst\<in>set [[1, 0::real]]. \<forall>v\<in>set lst. 0 \<le> v" by simp
  from normalize_round_trip[OF h1 h2 h3] obtain ret where
    r: "normalize_remaining_time [[1, 0]] = Inr (ret, ln (1 + 1))"
    and rt: "\<forall>k<length [[1, 0::real]]. \<forall>i<length ([[1, 0::real]] ! k).
                 [[1, 0::real]] ! k ! i \<le> 1
               \<and> reconstruct_value (ret ! k ! i) (ln (1 + 1)) = [[1, 0]] ! k ! i" by blast
  from rt have "reconstruct_value (ret ! 0 ! 0) (ln (1 + 1)) = 1" by force
  moreover from rt have "reconstruct_value (ret ! 0 ! 1) (ln (1 + 1)) = 0" by force
  ultimately show ?thesis using h1 h3 r by simp
qed

lemma fold_max_attained: "fold max xs (m::real) = m \<or> fold max xs m \<in> set xs"
proof (induction xs arbitrary: m)
  case Nil
  show ?case by simp
next
  case (Cons x xs)
  from Cons.IH[of "max x m"] show ?case by (auto simp: max_def split: if_splits)
qed

lemma py_max_attained: "py_max lst = Inr m \<Longrightarrow> m \<in> set lst"
  using fold_max_attained by (cases lst) auto

lemma max_value_loop_attained:
  "max_value_loop rem m = Inr mv \<Longrightarrow> mv = m \<or> (\<exists>lst\<in>set rem. mv \<in> set lst)"
proof (induction rem arbitrary: m)
  case Nil
  then show ?case by simp
next
  case (Cons lst rest)
  from Cons.prems obtain ml where ml: "py_max lst = Inr ml"
    and rest: "max_value_loop rest (max m ml) = Inr mv"
    by (auto simp: bindE_def split: sum.splits)
  from Cons.IH[OF rest] py_max_attained[OF ml] show ?case
    by (auto simp: max_def split: if_splits)
qed

lemma max_value_loop_nonempty:
  "max_value_loop rem m = Inr mv \<Longrightarrow> \<forall>lst\<in>set rem. lst \<noteq> []"
  by (induction rem arbitrary: m) (auto simp: bindE_def split: sum.splits)

lemma normalize_list_zero: "lst \<noteq> [] \<Longrightarrow> isl (normalize_list 0 lst)"
  by (cases lst) (auto simp: bindE_def split: sum.splits)

lemma normalize_list_zero_div:
  "lst \<noteq> [] \<Longrightarrow> - 1 < hd lst \<Longrightarrow> normalize_list 0 lst = Inl ZeroDivisionError"
  by (cases lst) (auto simp: bindE_def math_log_def)

lemma normalize_lists_zero:
  assumes "lst \<noteq> []"
  shows "isl (normalize_lists 0 (lst # rest))"
proof -
  from normalize_list_zero[OF assms] obtain e where "normalize_list 0 lst = Inl e"
    by (cases "normalize_list 0 lst") auto
  then show ?thesis by (simp add: bindE_def)
qed

text \<open>
  Claim C9. When the global maximum of the raw remaining times is 0, the logarithm of
  \<open>1 + 0\<close> is 0 and \<open>normalize_remaining_time\<close> raises an error instead of returning
  a list: a ZeroDivisionError whenever the first value can be given to the logarithm
  (it is above \<open>-1\<close>, as every remaining time that is not negative is). Consequently,
  on remaining times that are not negative, the function returns a result only when
  at least one of them is strictly positive.
\<close>

theorem normalize_zero_max_raises:
  "(max_value_loop rem (- 10000000) = Inr 0 \<longrightarrow>
       math_log (1 + 0) = Inr 0
     \<and> isl (normalize_remaining_time rem)
     \<and> (- 1 < hd (hd rem) \<longrightarrow> normalize_remaining_time rem = Inl ZeroDivisionError))
   \<and> ((\<forall>lst\<in>set rem. \<forall>v\<in>set lst. 0 \<le> v) \<and> normalize_remaining_time rem = Inr r \<longrightarrow>
        (\<exists>lst\<in>set rem. \<exists>v\<in>set lst. 0 < v))"
proof (intro conjI impI)
  show "math_log (1 + 0) = Inr 0" by (simp add: math_log_def)
next
  assume mx: "max_value_loop rem (- 10000000) = Inr 0"
  then obtain lst rest where rem: "rem = lst # rest" by (cases rem) auto
  have ne: "lst \<noteq> []" using max_value_loop_nonempty[OF mx] rem by simp
  have "isl (normalize_lists 0 rem)"
    using normalize_lists_zero[OF ne] by (simp add: rem)
  then show "isl (normalize_remaining_time rem)"
    by (auto simp: normalize_remaining_time_def bindE_def mx math_log_def split: sum.splits)
  assume "- 1 < hd (hd rem)"
  then have "normalize_lists 0 rem = Inl ZeroDivisionError"
    using normalize_list_zero_div[OF ne] by (simp add: rem bindE_def)
  then show "normalize_remaining_time rem = Inl ZeroDivisionError"
    by (simp add: normalize_remaining_time_def bindE_def mx math_log_def)
next
  assume a: "(\<forall>lst\<in>set rem. \<forall>v\<in>set lst. 0 \<le> v) \<and> normalize_remaining_time rem = Inr r"
  then obtain mv where mx: "max_value_loop rem (- 10000000) = Inr mv"
    and lg: "- 1 < mv" and nl: "\<not> isl (normalize_lists (ln (1 + mv)) rem)"
    by (auto simp: normalize_remaining_time_def bindE_def math_log_def split: sum.splits if_splits)
  from max_value_loop_attained[OF mx] lg obtain lst where m: "lst \<in> set rem" "mv \<in> set lst"
    by auto
  then have ge: "0 \<le> mv" using a by blast
  have "mv \<noteq> 0"
  proof
    assume z: "mv = 0"
    obtain l rest where rem: "rem = l # rest" using m by (cases rem) auto
    have "l \<noteq> []" using max_value_loop_nonempty[OF mx] rem by simp
    then have "isl (normalize_lists 0 rem)"
      using normalize_lists_zero by (simp add: rem)
    with nl z show False by simp
  qed
  with ge have "0 < mv" by simp
  with m show "\<exists>lst\<in>set rem. \<exists>v\<in>set lst. 0 < v" by blast
qed

theorem normalize_zero_max_raises_witness:
  "max_value_loop [[0, 0]] (- 10000000) = Inr 0
   \<and> - 1 < hd (hd [[0, 0::real]])
   \<and> normalize_remaining_time [[0, 0]] = Inl ZeroDivisionError
   \<and> list_all (list_all (\<lambda>v. 0 \<le> v)) [[12, 7, 0::real]]
   \<and> \<not> isl (normalize_remaining_time [[12, 7, 0]])
   \<and> (\<exists>lst\<in>set [[12, 7, 0::real]]. \<exists>v\<in>set lst. 0 < v)"
proof -
  have h1: "max_value_loop [[0, 0]] (- 10000000) = Inr 0" by (simp add: bindE_def)
  have h2: "- 1 < hd (hd [[0, 0::real]])" by simp
  have c1: "normalize_remaining_time [[0, 0]] = Inl ZeroDivisionError"
    using normalize_zero_max_raises[of "[[0, 0]]"] h1 h2 by blast
  have h3: "\<forall>lst\<in>set [[12, 7, 0::real]]. \<forall>v\<in>set lst. 0 \<le> v" by simp
  obtain r where h4: "normalize_remaining_time [[12, 7, 0]] = Inr r"
    by (simp add: normalize_remaining_time_def bindE_def math_log_def)
  have c2: "\<exists>lst\<in>set [[12, 7, 0::real]]. \<exists>v\<in>set lst. 0 < v"
    using normalize_zero_max_raises[of "[[12, 7, 0]]" r] h3 h4 by blast
  show ?thesis using h1 h2 c1 h3 h4 c2 by simp
qed

section \<open>Grouping\<close>

lemma py_index_last: "xs \<noteq> [] \<Longrightarrow> py_index xs (- 1) = Inr (last xs)"
  by (cases xs rule: rev_cases) (auto simp: py_index_def Let_def nth_append)

lemma py_index_nat: "i < length xs \<Longrightarrow> py_index xs (int i) = Inr (xs ! i)"
  by (simp add: py_index_def Let_def)

lemma pad_last_nonempty:
  "rem \<noteq> [] \<Longrightarrow> pad_last rem L = Inr (rem @ replicate (L - length rem) (last rem))"
proof (induction rem L rule: pad_last.induct)
  case (1 rem L)
  show ?case
  proof (cases "length rem < L")
    case True
    have ix: "py_index rem (- 1) = Inr (last rem)" using py_index_last[OF "1.prems"] .
    have "pad_last (rem @ [last rem]) L
        = Inr ((rem @ [last rem]) @ replicate (L - length (rem @ [last rem])) (last (rem @ [last rem])))"
      using "1.IH"[OF True, of "last rem"] by simp
    moreover have "L - length rem = Suc (L - length (rem @ [last rem]))" using True by simp
    ultimately show ?thesis
      using True ix by (subst pad_last.simps) (simp add: bindE_def replicate_app_Cons_same)
  next
    case False
    then show ?thesis by (subst pad_last.simps) simp
  qed
qed

lemma take_drop_eq_map: "j0 + k \<le> length rt \<Longrightarrow> take k (drop j0 rt) = map (\<lambda>i. rt ! (j0 + i)) [0..<k]"
  by (auto intro!: nth_equalityI)

lemma padded_case_full: "L \<le> n \<Longrightarrow> j0 + n \<le> length rt \<Longrightarrow> padded_case rt j0 n L = take L (drop j0 rt)"
  by (auto simp: padded_case_def take_drop_eq_map min_def)

lemma padded_case_pad:
  assumes "0 < n" "n < L" "j0 + n \<le> length rt"
  shows "take n (drop j0 rt) @ replicate (L - n) (last (take n (drop j0 rt))) = padded_case rt j0 n L"
proof (rule nth_equalityI)
  show "length (take n (drop j0 rt) @ replicate (L - n) (last (take n (drop j0 rt)))) = length (padded_case rt j0 n L)"
    using assms by (simp add: padded_case_def)
next
  fix i assume "i < length (take n (drop j0 rt) @ replicate (L - n) (last (take n (drop j0 rt))))"
  then have i: "i < L" using assms by simp
  have len: "length (take n (drop j0 rt)) = n" using assms by simp
  have lst: "last (take n (drop j0 rt)) = rt ! (j0 + (n - 1))"
    using assms len by (simp add: last_conv_nth)
  show "(take n (drop j0 rt) @ replicate (L - n) (last (take n (drop j0 rt)))) ! i = padded_case rt j0 n L ! i"
  proof (cases "i < n")
    case True
    then have "min i (n - 1) = i" by simp
    then show ?thesis using True assms i by (simp add: nth_append padded_case_def)
  next
    case False
    then have "min i (n - 1) = n - 1" using assms by simp
    then show ?thesis using False assms i lst by (simp add: nth_append padded_case_def)
  qed
qed

lemma group_case_loop_inv:
  assumes "1 \<le> L" "j0 + n \<le> length rt"
  shows "k < n \<Longrightarrow>
     group_case_loop [k..<n] n rt L (take k (drop j0 rt)) (L \<le> k)
        (if L \<le> k then g @ [take L (drop j0 rt)] else g) (j0 + k)
     = Inr (g @ [padded_case rt j0 n L], j0 + n)"
proof (induction "n - k" arbitrary: k)
  case 0
  then show ?case by simp
next
  case (Suc d)
  have kn: "k < n" by fact
  have "py_index rt (int (j0 + k)) = Inr (rt ! (j0 + k))"
    using kn assms by (intro py_index_nat) simp
  then have ix: "py_index rt (int j0 + int k) = Inr (rt ! (j0 + k))" by simp
  have tk: "take k (drop j0 rt) @ [rt ! (j0 + k)] = take (Suc k) (drop j0 rt)"
    using kn assms by (simp add: take_Suc_conv_app_nth)
  have upt: "[k..<n] = k # [Suc k..<n]" using kn by (simp add: upt_conv_Cons)
  show ?case
  proof (cases "Suc k < n")
    case True
    have d: "d = n - Suc k" using Suc.hyps(2) by simp
    have ih: "group_case_loop [Suc k..<n] n rt L (take (Suc k) (drop j0 rt)) (L \<le> Suc k)
        (if L \<le> Suc k then g @ [take L (drop j0 rt)] else g) (j0 + Suc k)
        = Inr (g @ [padded_case rt j0 n L], j0 + n)"
      using Suc.hyps(1)[OF d True] .
    have nl: "int k \<noteq> int n - 1" using True by simp
    show ?thesis
    proof (cases "Suc k = L")
      case e: True
      then have Lk: "L = Suc k" by simp
      show ?thesis using ih unfolding Lk
        by (simp add: upt ix bindE_def tk Let_def del: upt_Suc)
    next
      case ne: False
      then have "int k \<noteq> int L - 1" using assms by auto
      moreover have "(L \<le> Suc k) = (L \<le> k)" using ne by auto
      ultimately show ?thesis using ih nl
        by (simp add: upt ix bindE_def tk Let_def del: upt_Suc)
    qed
  next
    case False
    then have nk: "n = Suc k" using kn by simp
    have full: "L \<le> Suc k \<Longrightarrow> padded_case rt j0 (Suc k) L = take L (drop j0 rt)"
      using assms nk by (intro padded_case_full) simp_all
    show ?thesis
    proof (cases "L \<le> k")
      case True
      then have "int k \<noteq> int L - 1" by auto
      then show ?thesis using True full unfolding nk
        by (simp add: ix bindE_def tk Let_def)
    next
      case notadded: False
      show ?thesis
      proof (cases "L = Suc k")
        case True
        show ?thesis using full unfolding nk True
          by (simp add: ix bindE_def tk Let_def)
      next
        case False
        then have a: "int k \<noteq> int L - 1" "Suc k < L"
          using notadded by auto
        have ne: "take (Suc k) (drop j0 rt) \<noteq> []" using assms nk by auto
        have len: "length (take (Suc k) (drop j0 rt)) = Suc k" using assms nk by simp
        have "pad_last (take (Suc k) (drop j0 rt)) L = Inr (padded_case rt j0 (Suc k) L)"
          using pad_last_nonempty[OF ne, of L] padded_case_pad[of "Suc k" L j0 rt] a assms nk len
          by simp
        then show ?thesis using a notadded unfolding nk
          by (simp add: ix bindE_def tk Let_def)
      qed
    qed
  qed
qed

lemma group_case_loop_case:
  assumes "1 \<le> L" "j + length ct \<le> length rt" "ct \<noteq> []"
  shows "group_case_loop [0..<length ct] (length ct) rt L [] False g j
         = Inr (g @ [padded_case rt j (length ct) L], j + length ct)"
  using group_case_loop_inv[OF assms(1,2), of 0 g] assms by simp

lemma group_loop_all:
  assumes "1 \<le> L"
  shows "\<forall>ct\<in>set cs. ct \<noteq> [] \<Longrightarrow> j + sum_list (map length cs) \<le> length rt \<Longrightarrow>
     group_loop cs rt L g j
       = Inr (g @ map (\<lambda>k. padded_case rt (j + sum_list (map length (take k cs))) (length (cs ! k)) L)
                   [0..<length cs])"
proof (induction cs arbitrary: g j)
  case Nil
  show ?case by simp
next
  case (Cons ct rest)
  have c: "group_case_loop [0..<length ct] (length ct) rt L [] False g j
         = Inr (g @ [padded_case rt j (length ct) L], j + length ct)"
    using Cons.prems by (intro group_case_loop_case assms) auto
  have ih: "group_loop rest rt L (g @ [padded_case rt j (length ct) L]) (j + length ct)
      = Inr ((g @ [padded_case rt j (length ct) L])
          @ map (\<lambda>k. padded_case rt (j + length ct + sum_list (map length (take k rest))) (length (rest ! k)) L)
                   [0..<length rest])"
    using Cons.prems by (intro Cons.IH) auto
  have m: "map (\<lambda>k. padded_case rt (j + sum_list (map length (take k (ct # rest)))) (length ((ct # rest) ! k)) L)
             [0..<length (ct # rest)]
      = padded_case rt j (length ct) L #
        map (\<lambda>k. padded_case rt (j + length ct + sum_list (map length (take k rest))) (length (rest ! k)) L)
                   [0..<length rest]"
    unfolding length_Cons map_upt_Suc by (simp add: add.assoc del: upt_Suc)
  show ?case unfolding m using c ih by (simp add: bindE_def del: upt_Suc)
qed

text \<open>
  Claim C7. When every group of the change-index list is non-empty, the flat list has
  a value for every index of the groups and \<open>max_len_trace\<close> is at least 1,
  \<open>group_remaining_time\<close> returns one sequence per case, each of length exactly
  \<open>max_len_trace\<close>. Entry \<open>i\<close> of the sequence of case \<open>k\<close> is the \<open>i\<close>-th value of
  that case in the flat list, and from the end of the case on it is the last value of
  that same case: the padding never takes a value of another case.
\<close>

theorem group_remaining_time_shape:
  assumes "\<forall>ct\<in>set change_indexes. ct \<noteq> []"
    and "sum_list (map length change_indexes) \<le> length remaining_time"
    and "1 \<le> max_len_trace"
  shows "\<exists>grouped. group_remaining_time change_indexes remaining_time max_len_trace = Inr grouped
     \<and> length grouped = length change_indexes
     \<and> (\<forall>k<length change_indexes.
          length (grouped ! k) = max_len_trace
        \<and> (\<forall>i<max_len_trace.
             grouped ! k ! i =
               remaining_time ! (sum_list (map length (take k change_indexes))
                                 + min i (length (change_indexes ! k) - 1))))"
  using group_loop_all[OF assms(3) assms(1), of 0 remaining_time "[]"] assms(2)
  by (simp add: group_remaining_time_def padded_case_def)

section \<open>Label Extractor\<close>

lemma pad_last_full: "L \<le> length rem \<Longrightarrow> pad_last rem L = Inr rem"
  by (subst pad_last.simps) simp

lemma event_get_time:
  "timestamped env p trace \<Longrightarrow> ev \<in> set trace \<Longrightarrow>
     event_get ev (timestamp_key_of env p) = Inr (timestamp_of env p ev)
     \<and> (\<exists>t off. timestamp_of env p ev = PTime t off)"
  by (auto simp: timestamped_def timestamp_of_def)

lemma comparable_pair:
  assumes "comparable env p trace" "a \<in> set trace" "b \<in> set trace"
  shows "(\<exists>s t. timestamp_of env p a = PTime s None \<and> timestamp_of env p b = PTime t None)
       \<or> (\<exists>s so t to. timestamp_of env p a = PTime s (Some so)
                        \<and> timestamp_of env p b = PTime t (Some to))"
proof -
  from assms(1) consider
    (naive) "\<forall>ev\<in>set trace. \<exists>t. event_get ev (timestamp_key_of env p) = Inr (PTime t None)"
    | (aware) "\<forall>ev\<in>set trace. \<exists>t off.
          event_get ev (timestamp_key_of env p) = Inr (PTime t (Some off))"
    unfolding comparable_def by blast
  then show ?thesis
  proof cases
    case naive
    then obtain s t where "event_get a (timestamp_key_of env p) = Inr (PTime s None)"
      "event_get b (timestamp_key_of env p) = Inr (PTime t None)"
      using assms(2,3) by blast
    then show ?thesis by (simp add: timestamp_of_def)
  next
    case aware
    then obtain s so t to where "event_get a (timestamp_key_of env p) = Inr (PTime s (Some so))"
      "event_get b (timestamp_key_of env p) = Inr (PTime t (Some to))"
      using assms(2,3) by blast
    then show ?thesis by (simp add: timestamp_of_def)
  qed
qed

text \<open>With the clock, two comparable timestamps give the difference of their instants.\<close>

lemma remaining_seconds_clock:
  assumes "\<not> truthy (business_hours_of p)" "comparable env p trace"
    "a \<in> set trace" "b \<in> set trace"
  shows "remaining_seconds env p (timestamp_of env p a) (timestamp_of env p b)
           = Inr (time_of env p b - time_of env p a)"
  using comparable_pair[OF assms(2,3,4)] assms(1)
  by (auto simp: remaining_seconds_def total_seconds_between_def time_of_def)

text \<open>With the business calendar, two timestamps give its answer on their readings.\<close>

lemma remaining_seconds_business:
  assumes "truthy (business_hours_of p)" "timestamped env p trace"
    "a \<in> set trace" "b \<in> set trace"
  shows "remaining_seconds env p (timestamp_of env p a) (timestamp_of env p b)
           = business_hours_getseconds env (wall_time_of env p a) (wall_time_of env p b)
               (worktiming_of p) (weekends_of p)"
proof -
  from event_get_time[OF assms(2,3)] event_get_time[OF assms(2,4)] obtain s so t to where
    "timestamp_of env p a = PTime s so" "timestamp_of env p b = PTime t to" by blast
  then show ?thesis using assms(1)
    by (simp add: remaining_seconds_def replace_tzinfo_none_def wall_time_of_def)
qed

lemma remaining_seconds_ok:
  assumes ts: "timestamped env p trace"
    and cmp: "\<not> truthy (business_hours_of p) \<Longrightarrow> comparable env p trace"
    and cal: "truthy (business_hours_of p) \<Longrightarrow> calendar_total env p"
    and mem: "a \<in> set trace" "b \<in> set trace"
  shows "remaining_seconds env p (timestamp_of env p a) (timestamp_of env p b)
           = Inr (projr (remaining_seconds env p (timestamp_of env p a) (timestamp_of env p b)))"
proof (cases "truthy (business_hours_of p)")
  case True
  have "\<not> isl (business_hours_getseconds env (wall_time_of env p a) (wall_time_of env p b)
                  (worktiming_of p) (weekends_of p))"
    using cal[OF True] by (simp add: calendar_total_def)
  then show ?thesis unfolding remaining_seconds_business[OF True ts mem]
    by (cases "business_hours_getseconds env (wall_time_of env p a) (wall_time_of env p b)
                  (worktiming_of p) (weekends_of p)") simp_all
next
  case False
  show ?thesis unfolding remaining_seconds_clock[OF False cmp[OF False] mem] by simp
qed

lemma remaining_time_events_run:
  assumes ts: "timestamped env p trace"
    and cmp: "\<not> truthy (business_hours_of p) \<Longrightarrow> comparable env p trace"
    and cal: "truthy (business_hours_of p) \<Longrightarrow> calendar_total env p"
  shows "k \<le> length trace \<Longrightarrow>
     remaining_time_events env p trace L [k..<length trace] ys
       = Inr (ys @ map (label_of env p trace) [k..<max k (min (length trace) L)])"
proof (induction "length trace - k" arbitrary: k ys)
  case 0
  then show ?case by simp
next
  case (Suc d)
  then have kn: "k < length trace" by simp
  then have ne: "trace \<noteq> []" by auto
  have upt: "[k..<length trace] = k # [Suc k..<length trace]" using kn by (simp add: upt_conv_Cons)
  show ?case
  proof (cases "k \<ge> L")
    case True
    then have "max k (min (length trace) L) = k" by simp
    then show ?thesis using True by (simp add: upt del: upt_Suc)
  next
    case False
    have mem: "trace ! k \<in> set trace" "last trace \<in> set trace" using kn ne by simp_all
    have st: "bindE (py_index trace (int k)) (\<lambda>ev. event_get ev (timestamp_key_of env p))
        = Inr (timestamp_of env p (trace ! k))"
      using kn event_get_time[OF ts mem(1)] by (simp add: py_index_nat)
    have et: "bindE (py_index trace (- 1)) (\<lambda>ev. event_get ev (timestamp_key_of env p))
        = Inr (timestamp_of env p (last trace))"
      using ne event_get_time[OF ts mem(2)] by (simp add: py_index_last)
    have rs: "remaining_seconds env p (timestamp_of env p (trace ! k))
                (timestamp_of env p (last trace)) = Inr (label_of env p trace k)"
      unfolding label_of_def using ts cmp cal mem by (rule remaining_seconds_ok)
    have d: "d = length trace - Suc k" using Suc.hyps(2) by simp
    have ih: "remaining_time_events env p trace L [Suc k..<length trace] (ys @ [label_of env p trace k])
       = Inr ((ys @ [label_of env p trace k])
              @ map (label_of env p trace) [Suc k..<max (Suc k) (min (length trace) L)])"
      using Suc.hyps(1)[OF d] kn by simp
    have m: "max k (min (length trace) L) = min (length trace) L"
      "max (Suc k) (min (length trace) L) = min (length trace) L"
      using False kn by auto
    have "[k..<min (length trace) L] = k # [Suc k..<min (length trace) L]"
      using False kn by (simp add: upt_conv_Cons)
    then show ?thesis using False ih
      unfolding upt m by (simp add: st et rs del: upt_Suc)
  qed
qed

lemma remaining_time_trace_run:
  assumes ts: "timestamped env p trace"
    and cmp: "\<not> truthy (business_hours_of p) \<Longrightarrow> comparable env p trace"
    and cal: "truthy (business_hours_of p) \<Longrightarrow> calendar_total env p"
    and ne: "trace \<noteq> []"
  shows "remaining_time_trace env p L trace
       = Inr (map (\<lambda>i. label_of env p trace (min i (length trace - 1))) [0..<L])"
proof (cases "L = 0")
  case True
  have "remaining_time_events env p trace L [0..<length trace] [] = Inr []"
    using remaining_time_events_run[OF ts cmp cal, of 0 L "[]"] True by simp
  then show ?thesis using True by (simp add: remaining_time_trace_def pad_last_full)
next
  case False
  let ?n = "length trace"
  let ?ys = "map (label_of env p trace) [0..<min ?n L]"
  have ev: "remaining_time_events env p trace L [0..<?n] [] = Inr ?ys"
    using remaining_time_events_run[OF ts cmp cal, of 0 L "[]"] by simp
  have yne: "?ys \<noteq> []" using ne False by simp
  have pad: "pad_last ?ys L = Inr (?ys @ replicate (L - length ?ys) (last ?ys))"
    using pad_last_nonempty[OF yne] .
  have eq: "?ys @ replicate (L - length ?ys) (last ?ys)
      = map (\<lambda>i. label_of env p trace (min i (?n - 1))) [0..<L]"
  proof (rule nth_equalityI)
    show "length (?ys @ replicate (L - length ?ys) (last ?ys))
        = length (map (\<lambda>i. label_of env p trace (min i (?n - 1))) [0..<L])" by simp
  next
    fix i assume "i < length (?ys @ replicate (L - length ?ys) (last ?ys))"
    then have i: "i < L" by simp
    have n0: "0 < ?n" using ne by simp
    have "min ?n L - 1 < min ?n L" using n0 False by linarith
    then have "?ys ! (min ?n L - 1) = label_of env p trace (min ?n L - 1)"
      by (simp del: upt_Suc)
    then have lst: "last ?ys = label_of env p trace (min ?n L - 1)"
      using yne by (simp add: last_conv_nth)
    show "(?ys @ replicate (L - length ?ys) (last ?ys)) ! i
        = map (\<lambda>i. label_of env p trace (min i (?n - 1))) [0..<L] ! i"
    proof (cases "i < ?n")
      case True
      then have "min i (?n - 1) = i" by simp
      then show ?thesis using True i by (simp add: nth_append)
    next
      case False
      then have "min i (?n - 1) = ?n - 1" "min ?n L = ?n" using i by simp_all
      then show ?thesis using False i lst by (simp add: nth_append)
    qed
  qed
  show ?thesis using pad unfolding eq by (simp add: remaining_time_trace_def ev del: upt_Suc)
qed

lemma remaining_time_traces_run:
  assumes cal: "truthy (business_hours_of p) \<Longrightarrow> calendar_total env p"
  shows "\<forall>trace\<in>set elog. trace \<noteq> [] \<and> timestamped env p trace
            \<and> (\<not> truthy (business_hours_of p) \<longrightarrow> comparable env p trace) \<Longrightarrow>
     remaining_time_traces env p L elog
       = Inr (map (\<lambda>trace. map (\<lambda>i. label_of env p trace (min i (length trace - 1))) [0..<L]) elog)"
proof (induction elog)
  case Nil
  show ?case by simp
next
  case (Cons trace rest)
  have "remaining_time_trace env p L trace
       = Inr (map (\<lambda>i. label_of env p trace (min i (length trace - 1))) [0..<L])"
    using Cons.prems cal by (intro remaining_time_trace_run) auto
  moreover have "remaining_time_traces env p L rest
       = Inr (map (\<lambda>trace. map (\<lambda>i. label_of env p trace (min i (length trace - 1))) [0..<L]) rest)"
    using Cons.prems by (intro Cons.IH) auto
  ultimately show ?case by (simp del: upt_Suc)
qed

lemma label_of_clock:
  assumes "\<not> truthy (business_hours_of p)" "comparable env p trace" "i < length trace"
  shows "label_of env p trace i = time_of env p (last trace) - time_of env p (trace ! i)"
proof -
  have "trace \<noteq> []" using assms(3) by auto
  then have "trace ! i \<in> set trace" "last trace \<in> set trace" using assms(3) by simp_all
  from remaining_seconds_clock[OF assms(1,2) this] show ?thesis by (simp add: label_of_def)
qed

lemma label_of_business:
  assumes "truthy (business_hours_of p)" "timestamped env p trace" "calendar_total env p"
    "i < length trace"
  shows "business_hours_getseconds env (wall_time_of env p (trace ! i))
           (wall_time_of env p (last trace)) (worktiming_of p) (weekends_of p)
         = Inr (label_of env p trace i)"
proof -
  have "trace \<noteq> []" using assms(4) by auto
  then have mem: "trace ! i \<in> set trace" "last trace \<in> set trace" using assms(4) by simp_all
  have "\<not> isl (business_hours_getseconds env (wall_time_of env p (trace ! i))
           (wall_time_of env p (last trace)) (worktiming_of p) (weekends_of p))"
    using assms(3) by (simp add: calendar_total_def)
  then show ?thesis unfolding label_of_def remaining_seconds_business[OF assms(1,2) mem]
    by (cases "business_hours_getseconds env (wall_time_of env p (trace ! i))
           (wall_time_of env p (last trace)) (worktiming_of p) (weekends_of p)") simp_all
qed

text \<open>
  Claim C6, as amended. For a log of non-empty traces whose events carry a timestamp
  (all naive or all offset-aware within a trace when the clock is used, and with a
  business calendar that answers when \<open>business_hours\<close> is set),
  \<open>get_remaining_time_from_log\<close> returns one list per trace, of length exactly
  \<open>max_len_trace\<close>. Its entry \<open>i\<close>, for \<open>i\<close> below the smaller of the trace length and
  \<open>max_len_trace\<close>, is the remaining time from event \<open>i\<close> to the last event: with
  \<open>business_hours\<close> unset the seconds from the timestamp of event \<open>i\<close> to the
  timestamp of the last event, with \<open>business_hours\<close> set what the business calendar
  counts from the reading of the one to the reading of the other. The entries after
  the end of the trace repeat the entry of its last event. When the trace is not
  longer than \<open>max_len_trace\<close>, the entry of its last event is among the entries and is
  0 (under \<open>business_hours\<close>: provided the calendar counts 0 from the last timestamp to
  itself). A longer trace is cut at \<open>max_len_trace\<close>, and its last entry is the
  remaining time of the event it was cut at.
\<close>

theorem remaining_time_labels:
  assumes wf: "\<forall>trace\<in>set elog. trace \<noteq> [] \<and> timestamped env p trace
                 \<and> (\<not> truthy (business_hours_of p) \<longrightarrow> comparable env p trace)"
    and cal: "truthy (business_hours_of p) \<longrightarrow> calendar_total env p"
  shows "\<exists>ys. get_remaining_time_from_log env elog L (Some p) = Inr ys
     \<and> length ys = length elog
     \<and> (\<forall>k<length elog.
          length (ys ! k) = L
        \<and> (\<not> truthy (business_hours_of p) \<longrightarrow>
              (\<forall>i<min (length (elog ! k)) L.
                  ys ! k ! i = time_of env p (last (elog ! k)) - time_of env p (elog ! k ! i)))
        \<and> (truthy (business_hours_of p) \<longrightarrow>
              (\<forall>i<min (length (elog ! k)) L.
                  business_hours_getseconds env (wall_time_of env p (elog ! k ! i))
                    (wall_time_of env p (last (elog ! k))) (worktiming_of p) (weekends_of p)
                  = Inr (ys ! k ! i)))
        \<and> (\<forall>i<L. length (elog ! k) \<le> i \<longrightarrow> ys ! k ! i = ys ! k ! (length (elog ! k) - 1))
        \<and> (length (elog ! k) \<le> L
             \<and> (truthy (business_hours_of p) \<longrightarrow>
                  business_hours_getseconds env (wall_time_of env p (last (elog ! k)))
                    (wall_time_of env p (last (elog ! k))) (worktiming_of p) (weekends_of p)
                  = Inr 0)
             \<longrightarrow> ys ! k ! (length (elog ! k) - 1) = 0))"
proof -
  define ys where
    "ys = map (\<lambda>trace. map (\<lambda>i. label_of env p trace (min i (length trace - 1))) [0..<L]) elog"
  have run: "get_remaining_time_from_log env elog L (Some p) = Inr ys"
    using remaining_time_traces_run[OF _ wf, of L] cal
    by (simp add: get_remaining_time_from_log_def ys_def)
  have len: "length ys = length elog" by (simp add: ys_def)
  have props: "length (ys ! k) = L
        \<and> (\<not> truthy (business_hours_of p) \<longrightarrow>
              (\<forall>i<min (length (elog ! k)) L.
                  ys ! k ! i = time_of env p (last (elog ! k)) - time_of env p (elog ! k ! i)))
        \<and> (truthy (business_hours_of p) \<longrightarrow>
              (\<forall>i<min (length (elog ! k)) L.
                  business_hours_getseconds env (wall_time_of env p (elog ! k ! i))
                    (wall_time_of env p (last (elog ! k))) (worktiming_of p) (weekends_of p)
                  = Inr (ys ! k ! i)))
        \<and> (\<forall>i<L. length (elog ! k) \<le> i \<longrightarrow> ys ! k ! i = ys ! k ! (length (elog ! k) - 1))
        \<and> (length (elog ! k) \<le> L
             \<and> (truthy (business_hours_of p) \<longrightarrow>
                  business_hours_getseconds env (wall_time_of env p (last (elog ! k)))
                    (wall_time_of env p (last (elog ! k))) (worktiming_of p) (weekends_of p)
                  = Inr 0)
             \<longrightarrow> ys ! k ! (length (elog ! k) - 1) = 0)"
    if k: "k < length elog" for k
  proof -
    define tr where "tr = elog ! k"
    define n where "n = length tr"
    have mem: "tr \<in> set elog" using k by (simp add: tr_def)
    have ne: "tr \<noteq> []" and ts: "timestamped env p tr"
      and cmp: "\<not> truthy (business_hours_of p) \<Longrightarrow> comparable env p tr"
      using wf mem by auto
    have n0: "0 < n" using ne by (simp add: n_def)
    have lastn: "last tr = tr ! (n - 1)" using ne by (simp add: last_conv_nth n_def)
    have row: "ys ! k = map (\<lambda>i. label_of env p tr (min i (n - 1))) [0..<L]"
      using k by (simp add: ys_def tr_def n_def)
    have nth: "ys ! k ! i = label_of env p tr (min i (n - 1))" if "i < L" for i
      using that by (simp add: row)
    have a: "length (ys ! k) = L" by (simp add: row)
    have b: "ys ! k ! i = label_of env p tr i" if "i < min n L" for i
    proof -
      have "min i (n - 1) = i" "i < L" using that by linarith+
      then show ?thesis using nth[of i] by simp
    qed
    have c: "ys ! k ! i = ys ! k ! (n - 1)" if "i < L" "n \<le> i" for i
    proof -
      have "min i (n - 1) = n - 1" "min (n - 1) (n - 1) = n - 1" "n - 1 < L"
        using that n0 by linarith+
      then show ?thesis using nth[of i] nth[of "n - 1"] that by simp
    qed
    have d: "ys ! k ! i = time_of env p (last tr) - time_of env p (tr ! i)"
      if "\<not> truthy (business_hours_of p)" "i < min n L" for i
    proof -
      have "i < length tr" using that(2) by (simp add: n_def)
      from label_of_clock[OF that(1) cmp[OF that(1)] this] b[OF that(2)] show ?thesis by simp
    qed
    have e: "business_hours_getseconds env (wall_time_of env p (tr ! i))
                    (wall_time_of env p (last tr)) (worktiming_of p) (weekends_of p)
                  = Inr (ys ! k ! i)"
      if "truthy (business_hours_of p)" "i < min n L" for i
    proof -
      have "i < length tr" using that(2) by (simp add: n_def)
      from label_of_business[OF that(1) ts _ this] cal that(1) b[OF that(2)]
      show ?thesis by simp
    qed
    have f: "ys ! k ! (n - 1) = 0"
      if "n \<le> L" "truthy (business_hours_of p) \<longrightarrow>
                  business_hours_getseconds env (wall_time_of env p (last tr))
                    (wall_time_of env p (last tr)) (worktiming_of p) (weekends_of p) = Inr 0"
    proof (cases "truthy (business_hours_of p)")
      case True
      have "n - 1 < min n L" using that(1) n0 by linarith
      from e[OF True this] that(2) True show ?thesis by (simp add: lastn)
    next
      case False
      have "n - 1 < min n L" using that(1) n0 by linarith
      from d[OF False this] show ?thesis by (simp add: lastn)
    qed
    show ?thesis
      unfolding tr_def[symmetric] n_def[symmetric]
      using a c d e f by (intro conjI allI impI) blast+
  qed
  show ?thesis
  proof (intro exI[of _ ys] conjI)
    show "get_remaining_time_from_log env elog L (Some p) = Inr ys" by (rule run)
    show "length ys = length elog" by (rule len)
    show "\<forall>k<length elog.
          length (ys ! k) = L
        \<and> (\<not> truthy (business_hours_of p) \<longrightarrow>
              (\<forall>i<min (length (elog ! k)) L.
                  ys ! k ! i = time_of env p (last (elog ! k)) - time_of env p (elog ! k ! i)))
        \<and> (truthy (business_hours_of p) \<longrightarrow>
              (\<forall>i<min (length (elog ! k)) L.
                  business_hours_getseconds env (wall_time_of env p (elog ! k ! i))
                    (wall_time_of env p (last (elog ! k))) (worktiming_of p) (weekends_of p)
                  = Inr (ys ! k ! i)))
        \<and> (\<forall>i<L. length (elog ! k) \<le> i \<longrightarrow> ys ! k ! i = ys ! k ! (length (elog ! k) - 1))
        \<and> (length (elog ! k) \<le> L
             \<and> (truthy (business_hours_of p) \<longrightarrow>
                  business_hours_getseconds env (wall_time_of env p (last (elog ! k)))
                    (wall_time_of env p (last (elog ! k))) (worktiming_of p) (weekends_of p)
                  = Inr 0)
             \<longrightarrow> ys ! k ! (length (elog ! k) - 1) = 0)"
      using props by blast
  qed
qed

section \<open>Sequence Tensor Builder\<close>

lemma event_get_name: "name \<in> fst ` set ev \<Longrightarrow> \<exists>v. event_get ev (PStr name) = Inr v"
  by (cases "map_of ev name") (auto simp: event_get_def map_of_eq_None_iff)

lemma list_set_ok:
  "wf_dictionary d \<Longrightarrow> map_of d rep = Some k \<Longrightarrow> length v = length d \<Longrightarrow>
     list_set v k x = Inr (v[k := x])"
  by (auto simp: list_set_def wf_dictionary_def dest!: map_of_SomeD)

lemma binary_row_update: "binary_row v \<Longrightarrow> binary_row (v[k := 1])"
  unfolding binary_row_def by (metis insert_iff set_update_subset_insert subsetD)

lemma event_features_ok:
  assumes wf: "wf_dictionary d"
  shows "set names \<subseteq> fst ` set ev \<Longrightarrow> length v = length d \<Longrightarrow> binary_row v \<Longrightarrow>
     \<exists>v'. event_features str d ev names v = Inr v' \<and> length v' = length d \<and> binary_row v'"
proof (induction names arbitrary: v)
  case Nil
  then show ?case by simp
next
  case (Cons name names)
  from Cons.prems(1) obtain a where a: "event_get ev (PStr name) = Inr a"
    using event_get_name[of name ev] by auto
  show ?case
  proof (cases "map_of d (''event:'' @ name @ ''@'' @ str a)")
    case None
    then show ?thesis using Cons a by (simp add: Let_def)
  next
    case (Some k)
    have ls: "list_set v k 1 = Inr (v[k := 1])" using list_set_ok[OF wf Some] Cons.prems by simp
    have "\<exists>v'. event_features str d ev names (v[k := 1]) = Inr v' \<and> length v' = length d \<and> binary_row v'"
      using Cons.prems by (intro Cons.IH) (auto intro: binary_row_update)
    then show ?thesis using a Some ls by (simp add: Let_def)
  qed
qed

lemma succession_features_ok:
  assumes wf: "wf_dictionary d"
  shows "set names \<subseteq> fst ` set ev \<Longrightarrow> length v = length d \<Longrightarrow> binary_row v \<Longrightarrow>
     \<exists>v'. succession_features str d ev nxt names v = Inr v' \<and> length v' = length d \<and> binary_row v'"
proof (induction names arbitrary: v)
  case Nil
  then show ?case by simp
next
  case (Cons name names)
  have ih: "\<exists>v'. succession_features str d ev nxt names w = Inr v' \<and> length v' = length d \<and> binary_row v'"
    if "length w = length d" "binary_row w" for w
    using Cons.prems that by (intro Cons.IH) auto
  show ?case
  proof (cases "map_of nxt name")
    case None
    then show ?thesis using ih[of v] Cons.prems by simp
  next
    case (Some b)
    then have b: "event_get nxt (PStr name) = Inr b" by (simp add: event_get_def)
    from Cons.prems(1) obtain a where a: "event_get ev (PStr name) = Inr a"
      using event_get_name[of name ev] by auto
    show ?thesis
    proof (cases "map_of d (''succession:'' @ name @ ''@'' @ str a @ ''#'' @ str b)")
      case None
      then show ?thesis using ih[of v] Cons.prems a b Some by (simp add: Let_def)
    next
      case k: (Some k)
      have ls: "list_set v k 1 = Inr (v[k := 1])" using list_set_ok[OF wf k] Cons.prems by simp
      have "\<exists>v'. succession_features str d ev nxt names (v[k := 1]) = Inr v' \<and> length v' = length d \<and> binary_row v'"
        using Cons.prems by (intro ih) (auto intro: binary_row_update)
      then show ?thesis using a b Some k ls by (simp add: Let_def)
    qed
  qed
qed

lemma event_vector_ok:
  assumes wf: "wf_dictionary d" and i: "index < length trace"
  shows "\<exists>v. event_vector str d trace index = Inr v \<and> length v = length d \<and> binary_row v"
proof -
  have ix: "py_index trace (int index) = Inr (trace ! index)" using i by (rule py_index_nat)
  obtain v1 where v1: "event_features str d (trace ! index) (map fst (trace ! index))
        (replicate (length d) 0) = Inr v1" "length v1 = length d" "binary_row v1"
    using event_features_ok[OF wf, of "map fst (trace ! index)" "trace ! index" "replicate (length d) 0" str]
    by (auto simp: binary_row_def)
  show ?thesis
  proof (cases "int index < int (length trace) - 1")
    case False
    then show ?thesis using ix v1 by (simp add: event_vector_def)
  next
    case True
    then have "Suc index < length trace" by simp
    then have "py_index trace (int (Suc index)) = Inr (trace ! Suc index)" by (rule py_index_nat)
    then have nx: "py_index trace (int index + 1) = Inr (trace ! Suc index)" by (simp add: add.commute)
    obtain v2 where "succession_features str d (trace ! index) (trace ! Suc index)
        (map fst (trace ! index)) v1 = Inr v2" "length v2 = length d" "binary_row v2"
      using succession_features_ok[OF wf, of "map fst (trace ! index)" "trace ! index" v1 str "trace ! Suc index"] v1
      by auto
    then show ?thesis using True ix v1 nx by (simp add: event_vector_def)
  qed
qed

lemma event_rows_ok:
  assumes wf: "wf_dictionary d"
  shows "set todo \<subseteq> {..<length trace} \<Longrightarrow> tensor_rows (length d) X \<Longrightarrow>
     \<exists>X'. event_rows str d trace todo X = Inr X' \<and> length X' = length X + length todo
         \<and> tensor_rows (length d) X'"
proof (induction todo arbitrary: X)
  case Nil
  then show ?case by simp
next
  case (Cons index todo)
  then have "index < length trace" by simp
  from event_vector_ok[OF wf this, of str] obtain v where
    v: "event_vector str d trace index = Inr v" "length v = length d" "binary_row v" by blast
  have "tensor_rows (length d) (X @ [v])" using Cons.prems v by (simp add: tensor_rows_def)
  from Cons.IH[OF _ this] Cons.prems obtain X' where
    "event_rows str d trace todo (X @ [v]) = Inr X'" "length X' = length (X @ [v]) + length todo"
    "tensor_rows (length d) X'" by auto
  then show ?case using v by simp
qed

lemma pad_zero_rows_ok:
  "X \<noteq> [] \<Longrightarrow> tensor_rows w X \<Longrightarrow>
     pad_zero_rows X j L = Inr (X @ replicate (L - j) (replicate w 0))"
proof (induction X j L rule: pad_zero_rows.induct)
  case (1 X j L)
  show ?case
  proof (cases "j < L")
    case False
    then show ?thesis by (subst pad_zero_rows.simps) simp
  next
    case True
    have lw: "length (last X) = w" using "1.prems" by (simp add: tensor_rows_def)
    have ix: "py_index X (- 1) = Inr (last X)" using "1.prems" by (simp add: py_index_last)
    have t: "tensor_rows w (X @ [replicate w 0])"
      using "1.prems" by (simp add: tensor_rows_def binary_row_def)
    have "pad_zero_rows (X @ [replicate w 0]) (j + 1) L
        = Inr ((X @ [replicate w 0]) @ replicate (L - (j + 1)) (replicate w 0))"
      using "1.IH"[OF True, of "last X"] t lw by simp
    moreover have "L - j = Suc (L - (j + 1))" using True by simp
    ultimately show ?thesis using True ix lw
      by (subst pad_zero_rows.simps) (simp add: replicate_app_Cons_same)
  qed
qed

lemma np_transpose_shape:
  assumes "X \<noteq> []" "\<forall>row\<in>set X. length row = w"
  shows "length (np_transpose X) = w"
    and "\<forall>row\<in>set (np_transpose X). length row = length X"
    and "c < w \<Longrightarrow> j < length X \<Longrightarrow> np_transpose X ! c ! j = X ! j ! c"
proof -
  obtain r rs where X: "X = r # rs" using assms(1) by (cases X) auto
  then have r: "length r = w" using assms(2) by simp
  have T: "np_transpose X = map (\<lambda>c. map (\<lambda>row. row ! c) X) [0..<w]"
    by (simp add: np_transpose_def X r)
  show "length (np_transpose X) = w" by (simp add: T)
  show "\<forall>row\<in>set (np_transpose X). length row = length X" by (auto simp: T)
  show "np_transpose X ! c ! j = X ! j ! c" if "c < w" "j < length X" using that by (simp add: T)
qed

text \<open>
  Claim C2, as amended. For a non-empty trace, a feature dictionary whose indices lie
  below its size and \<open>max_len_trace\<close> at least 1, \<open>get_trace_rep_rnn\<close> returns the
  transposed tensor: it has one entry per feature in its first dimension and
  \<open>max_len_trace\<close> entries in its second, whether the trace is shorter than, as long
  as or longer than \<open>max_len_trace\<close>. Every entry is 0 or 1, and the entries at the
  positions after the end of the trace are 0.
\<close>

theorem trace_rep_shape:
  assumes "trace \<noteq> []" and "wf_dictionary d" and "1 \<le> L"
  shows "\<exists>X. get_trace_rep_rnn str trace d L = Inr X
     \<and> length X = length d
     \<and> (\<forall>c<length d. length (X ! c) = L
          \<and> (\<forall>j<L. (X ! c ! j = 0 \<or> X ! c ! j = 1)
                \<and> (length trace \<le> j \<longrightarrow> X ! c ! j = 0)))"
proof -
  let ?m = "min (length trace) L"
  have sub: "set [0..<?m] \<subseteq> {..<length trace}" by auto
  have t0: "tensor_rows (length d) []" by (simp add: tensor_rows_def)
  obtain X1 where X1: "event_rows str d trace [0..<?m] [] = Inr X1" "length X1 = ?m"
    "tensor_rows (length d) X1"
    using event_rows_ok[OF assms(2) sub t0, of str] by auto
  have "0 < length trace" using assms(1) by simp
  then have "0 < ?m" using assms(3) by linarith
  then have "0 < length X1" using X1(2) by simp
  then have ne: "X1 \<noteq> []" by auto
  define X2 where "X2 = X1 @ replicate (L - length trace) (replicate (length d) 0)"
  have pad: "pad_zero_rows X1 (length trace) L = Inr X2"
    unfolding X2_def using ne X1(3) by (rule pad_zero_rows_ok)
  have len2: "length X2 = L" using X1(2) by (simp add: X2_def)
  have w2: "\<forall>row\<in>set X2. length row = length d"
    using X1(3) by (auto simp: X2_def tensor_rows_def)
  have ne2: "X2 \<noteq> []" using ne by (simp add: X2_def)
  have run: "get_trace_rep_rnn str trace d L = Inr (np_transpose X2)"
    by (simp add: get_trace_rep_rnn_def X1(1) pad)
  have entries: "length (np_transpose X2 ! c) = L
          \<and> (\<forall>j<L. (np_transpose X2 ! c ! j = 0 \<or> np_transpose X2 ! c ! j = 1)
                \<and> (length trace \<le> j \<longrightarrow> np_transpose X2 ! c ! j = 0))" if c: "c < length d" for c
  proof (intro conjI allI impI)
    have "np_transpose X2 ! c \<in> set (np_transpose X2)"
      using c np_transpose_shape(1)[OF ne2 w2] by simp
    then show "length (np_transpose X2 ! c) = L"
      using np_transpose_shape(2)[OF ne2 w2] len2 by simp
  next
    fix j assume j: "j < L"
    have e: "np_transpose X2 ! c ! j = X2 ! j ! c"
      using np_transpose_shape(3)[OF ne2 w2 c] j len2 by simp
    show "np_transpose X2 ! c ! j = 0 \<or> np_transpose X2 ! c ! j = 1"
    proof (cases "j < length X1")
      case True
      then have "X1 ! j \<in> set X1" by simp
      then have "length (X1 ! j) = length d" "binary_row (X1 ! j)"
        using X1(3) by (auto simp: tensor_rows_def)
      then have "X1 ! j ! c = 0 \<or> X1 ! j ! c = 1" using c by (auto simp: binary_row_def)
      then show ?thesis using e True by (simp add: X2_def nth_append)
    next
      case False
      then show ?thesis using e j c len2 X1(2) by (simp add: X2_def nth_append)
    qed
    show "np_transpose X2 ! c ! j = 0" if "length trace \<le> j"
    proof -
      have "\<not> j < length X1" using that X1(2) by simp
      then show ?thesis using e j c that X1(2) by (simp add: X2_def nth_append)
    qed
  qed
  show ?thesis using run np_transpose_shape(1)[OF ne2 w2] entries by blast
qed

section \<open>The adapters\<close>

lemma bindE_Inr_iff: "bindE m f = Inr r \<longleftrightarrow> (\<exists>v. m = Inr v \<and> f v = Inr r)"
  by (cases m) simp_all

lemma event_rows_length:
  "event_rows str d trace todo X = Inr X' \<Longrightarrow> length X' = length X + length todo"
proof (induction todo arbitrary: X)
  case Nil
  then show ?case by simp
next
  case (Cons index todo)
  from Cons.prems obtain v where "event_rows str d trace todo (X @ [v]) = Inr X'"
    by (auto simp: bindE_Inr_iff)
  from Cons.IH[OF this] show ?case by simp
qed

lemma pad_zero_rows_length:
  "pad_zero_rows X j L = Inr X' \<Longrightarrow> length X' = length X + (L - j)"
proof (induction X j L rule: pad_zero_rows.induct)
  case (1 X j L)
  show ?case
  proof (cases "j < L")
    case False
    then show ?thesis using "1.prems" by (subst (asm) pad_zero_rows.simps) simp
  next
    case True
    have "pad_zero_rows X j L = bindE (py_index X (- 1)) (\<lambda>last_row.
             pad_zero_rows (X @ [replicate (length last_row) 0]) (j + 1) L)"
      using True by (subst pad_zero_rows.simps) simp
    with "1.prems" have "\<exists>r::real list. pad_zero_rows (X @ [replicate (length r) 0]) (j + 1) L = Inr X'"
      by (auto simp: bindE_Inr_iff)
    then obtain r :: "real list" where
      "pad_zero_rows (X @ [replicate (length r) 0]) (j + 1) L = Inr X'" by blast
    from "1.IH"[OF True this] True show ?thesis by simp
  qed
qed

lemma np_transpose_rows: "row \<in> set (np_transpose X) \<Longrightarrow> length row = length X"
  by (cases X) (auto simp: np_transpose_def)

lemma get_trace_rep_rnn_rows:
  assumes "get_trace_rep_rnn str trace d L = Inr rep" "row \<in> set rep"
  shows "length row = L"
proof -
  from assms(1) obtain X1 X2 where
    X1: "event_rows str d trace [0..<min (length trace) L] [] = Inr X1"
    and X2: "pad_zero_rows X1 (length trace) L = Inr X2"
    and rep: "rep = np_transpose X2"
    by (auto simp: get_trace_rep_rnn_def bindE_Inr_iff)
  have "length X2 = min (length trace) L + (L - length trace)"
    using event_rows_length[OF X1] pad_zero_rows_length[OF X2] by simp
  then have "length X2 = L" by linarith
  then show ?thesis using np_transpose_rows assms(2) rep by auto
qed

lemma get_log_rep_rnn_rows:
  "get_log_rep_rnn str elog d L = Inr X \<Longrightarrow> rep \<in> set X \<Longrightarrow>
     rep \<noteq> [] \<and> (\<forall>row\<in>set rep. length row = L)"
proof (induction elog arbitrary: X)
  case Nil
  then show ?case by simp
next
  case (Cons trace rest)
  from Cons.prems(1) obtain r X0 where
    r: "get_trace_rep_rnn str trace d L = Inr r"
    and X0: "get_log_rep_rnn str rest d L = Inr X0"
    and X: "X = (if r \<noteq> [] then r # X0 else X0)"
    by (auto simp: bindE_Inr_iff)
  show ?case
  proof (cases "rep \<in> set X0")
    case True
    then show ?thesis using Cons.IH[OF X0] by simp
  next
    case False
    then have "rep = r" "r \<noteq> []" using Cons.prems(2) X by (auto split: if_splits)
    then show ?thesis using get_trace_rep_rnn_rows[OF r] by simp
  qed
qed

lemma np_shape_third:
  assumes "\<forall>rep\<in>set X. rep \<noteq> [] \<and> (\<forall>row\<in>set rep. length row = L)"
    and "py_index (np_shape X) 2 = Inr n"
  shows "n = L"
proof (cases X)
  case Nil
  then show ?thesis using assms(2) by (simp add: np_shape_def py_index_def)
next
  case (Cons rep rest)
  then obtain row rows where rep: "rep = row # rows" using assms(1) by (cases rep) auto
  then have "length row = L" using assms(1) Cons by simp
  then show ?thesis using assms(2) Cons rep by (simp add: np_shape_def py_index_def)
qed

lemma hidden_neurons_of_div: "hidden_neurons_of n = min (15 * n div 2) 50"
proof -
  have "real n * 7.5 = real (15 * n) / real 2" by simp
  then have "\<lfloor>real n * 7.5\<rfloor> = int (15 * n div 2)"
    by (simp only: floor_divide_of_nat_eq)
  then show ?thesis by (simp add: hidden_neurons_of_def)
qed

text \<open>
  Claim C5, as amended. Whenever the sequence-model \<open>train\<close> returns a model, the
  number of hidden units of its recurrent layer is \<open>min(int(7.5 * n), 50)\<close>, the
  product cut to its integer part, where \<open>n\<close> is the size of the third dimension of
  the encoded tensor. That size is \<open>max_len_trace\<close>, the length of the longest trace
  of the training log, and is also the number of units of the output layer.
\<close>

theorem keras_hidden_units:
  assumes "keras_train env elog ps heap = (heap', Inr model)"
  shows "max_trace_length elog = Inr (km_max_len_trace model)
     \<and> in_out_neurons (km_regr model) = km_max_len_trace model
     \<and> hidden_neurons (km_regr model) = min (nat \<lfloor>real (km_max_len_trace model) * 7.5\<rfloor>) 50
     \<and> hidden_neurons (km_regr model) = min (15 * km_max_len_trace model div 2) 50"
proof -
  obtain a h0 where e: "enter_parameters ps heap = (a, h0)" by (cases "enter_parameters ps heap")
  define p where "p = (h0[a := (h0 ! a)(''enable_sort'' \<mapsto> PBool False)]) ! a"
  define de where "de = param_or (h0 ! a) ''default_epochs'' (PInt 50)"
  have body: "keras_train_body env elog p de = Inr model"
    using assms by (auto simp: keras_train_def e Let_def p_def de_def)
  from body have "\<exists>L fn X n. max_trace_length elog = Inr L
    \<and> get_X_from_log (py_str env) elog fn L = Inr X
    \<and> py_index (np_shape X) 2 = Inr n
    \<and> km_max_len_trace model = L \<and> in_out_neurons (km_regr model) = n
    \<and> hidden_neurons (km_regr model) = hidden_neurons_of n"
    by (auto simp: keras_train_body_def Let_def bindE_Inr_iff split: prod.splits) blast
  then obtain L fn X n where
    L: "max_trace_length elog = Inr L"
    and X: "get_X_from_log (py_str env) elog fn L = Inr X"
    and n: "py_index (np_shape X) 2 = Inr n"
    and m: "km_max_len_trace model = L" "in_out_neurons (km_regr model) = n"
       "hidden_neurons (km_regr model) = hidden_neurons_of n"
    by blast
  have "n = L"
    using get_log_rep_rnn_rows X n np_shape_third[of X L n]
    by (auto simp: get_X_from_log_def Let_def)
  then show ?thesis using L m hidden_neurons_of_div[of L]
    by (simp add: hidden_neurons_of_def)
qed


lemma py_index_pred: "0 < n \<Longrightarrow> n \<le> length xs \<Longrightarrow> py_index xs (int n - 1) = Inr (xs ! (n - 1))"
  using py_index_nat[of "n - 1" xs] by (simp add: of_nat_diff)

lemma keras_test_loop_run:
  "\<forall>(i, t)\<in>set todo. i < length y \<and> 0 < length t \<and> length t \<le> length (y ! i) \<Longrightarrow>
     keras_test_loop y lmv todo ret
       = Inr (ret @ map (\<lambda>(i, t). reconstruct_value (y ! i ! (length t - 1)) lmv) todo)"
proof (induction todo arbitrary: ret)
  case Nil
  show ?case by simp
next
  case (Cons it todo)
  obtain i t where it: "it = (i, t)" by (cases it)
  have a: "py_index y (int i) = Inr (y ! i)" using Cons.prems it by (simp add: py_index_nat)
  have b: "py_index (y ! i) (int (length t) - 1) = Inr (y ! i ! (length t - 1))"
    using Cons.prems it by (intro py_index_pred) auto
  have "keras_test_loop y lmv todo (ret @ [reconstruct_value (y ! i ! (length t - 1)) lmv])
      = Inr ((ret @ [reconstruct_value (y ! i ! (length t - 1)) lmv])
              @ map (\<lambda>(i, t). reconstruct_value (y ! i ! (length t - 1)) lmv) todo)"
    using Cons.prems by (intro Cons.IH) auto
  then show ?case by (simp add: it a b)
qed

lemma map_enumerate_nth:
  "map (\<lambda>(i, t). f i t) (enumerate 0 xs) = map (\<lambda>i. f i (xs ! i)) [0..<length xs]"
  by (rule nth_equalityI) (simp_all add: nth_enumerate_eq)

lemma keras_test_run:
  assumes X: "get_X_from_log (py_str env) (log_of obj) (km_feature_names model)
                (km_max_len_trace model) = Inr X"
    and y: "rnn_predict env (fitted (km_regr model)) X = Inr y"
    and rows: "length (log_of obj) \<le> length y"
    and cols: "\<forall>i<length (log_of obj).
                 0 < length (log_of obj ! i) \<and> length (log_of obj ! i) \<le> length (y ! i)"
  shows "keras_test env model obj =
     Inr (if length (log_of obj) = 1
          then Scalar (reconstruct_value (y ! 0 ! (length (log_of obj ! 0) - 1))
                         (km_log_max_value model))
          else Predictions
                 (map (\<lambda>i. reconstruct_value (y ! i ! (length (log_of obj ! i) - 1))
                              (km_log_max_value model))
                    [0..<length (log_of obj)]))"
proof (cases "length (log_of obj) = 1")
  case True
  then have "0 < length y" "0 < length (log_of obj)" using rows by linarith+
  then have a: "py_index y 0 = Inr (y ! 0)" "py_index (log_of obj) 0 = Inr (log_of obj ! 0)"
    by (simp_all add: py_index_def Let_def)
  have "py_index (y ! 0) (int (length (log_of obj ! 0)) - 1)
      = Inr (y ! 0 ! (length (log_of obj ! 0) - 1))"
    using cols True by (intro py_index_pred) auto
  then show ?thesis using True a X y
    by (simp add: keras_test_def Let_def log_of_def[symmetric])
next
  case False
  have "\<forall>(i, t)\<in>set (enumerate 0 (log_of obj)).
          i < length y \<and> 0 < length t \<and> length t \<le> length (y ! i)"
    using rows cols by (auto simp: in_set_enumerate_eq)
  from keras_test_loop_run[OF this, of "km_log_max_value model" "[]"]
  have "keras_test_loop y (km_log_max_value model) (enumerate 0 (log_of obj)) []
      = Inr (map (\<lambda>i. reconstruct_value (y ! i ! (length (log_of obj ! i) - 1))
                              (km_log_max_value model)) [0..<length (log_of obj)])"
    by (simp add: map_enumerate_nth)
  then show ?thesis using False X y
    by (simp add: keras_test_def Let_def log_of_def[symmetric])
qed

lemma reconstruct_value_explicit:
  "reconstruct_value y log_max_value = exp ((max y (- 1) + 1) / 2 * log_max_value) - 1"
  by (simp add: reconstruct_value_def Let_def max_def)

text \<open>
  Claim C8. In the sequence-model \<open>test\<close>, let the regressor answer the encoded log
  with one output row per trace, each trace being non-empty and not longer than its
  row. Then the prediction for a trace is the denormalised value of the component
  \<open>c\<close> of its row at index (length of that trace) - 1, whatever \<open>max_len_trace\<close> is:
  \<open>exp ((max c (-1) + 1) / 2 * log_max_value) - 1\<close>, with the \<open>log_max_value\<close> of the
  model bundle. A single trace, or a log of exactly one trace, gives a number; any
  other log gives the list of the predictions in the order of its traces.
\<close>

theorem keras_test_reads_own_length:
  assumes X: "get_X_from_log (py_str env) (log_of obj) (km_feature_names model)
                (km_max_len_trace model) = Inr X"
    and y: "rnn_predict env (fitted (km_regr model)) X = Inr y"
    and rows: "length (log_of obj) \<le> length y"
    and cols: "\<forall>i<length (log_of obj).
                 0 < length (log_of obj ! i) \<and> length (log_of obj ! i) \<le> length (y ! i)"
  shows "keras_test env model obj =
     Inr (if length (log_of obj) = 1
          then Scalar (exp ((max (y ! 0 ! (length (log_of obj ! 0) - 1)) (- 1) + 1) / 2
                              * km_log_max_value model) - 1)
          else Predictions
                 (map (\<lambda>i. exp ((max (y ! i ! (length (log_of obj ! i) - 1)) (- 1) + 1) / 2
                                  * km_log_max_value model) - 1)
                    [0..<length (log_of obj)]))"
  using keras_test_run[OF X y rows cols] by (simp only: reconstruct_value_explicit)

lemma remaining_time_events_prefix:
  "remaining_time_events env p trace L todo acc = Inr r \<Longrightarrow> \<exists>s. r = acc @ s"
proof (induction todo arbitrary: acc)
  case Nil
  then show ?case by simp
next
  case (Cons index todo)
  show ?case
  proof (cases "index \<ge> L")
    case True
    then show ?thesis using Cons.prems by simp
  next
    case False
    with Cons.prems obtain v where "remaining_time_events env p trace L todo (acc @ [v]) = Inr r"
      by (auto simp: bindE_Inr_iff)
    from Cons.IH[OF this] show ?thesis by auto
  qed
qed

lemma pad_last_prefix: "pad_last r L = Inr y \<Longrightarrow> \<exists>s. y = r @ s"
proof (induction r L rule: pad_last.induct)
  case (1 rem L)
  show ?case
  proof (cases "length rem < L")
    case False
    then show ?thesis using "1.prems" by (subst (asm) pad_last.simps) simp
  next
    case True
    have "pad_last rem L = bindE (py_index rem (- 1)) (\<lambda>v. pad_last (rem @ [v]) L)"
      using True by (subst pad_last.simps) simp
    with "1.prems" obtain v where "pad_last (rem @ [v]) L = Inr y"
      by (auto simp: bindE_Inr_iff)
    from "1.IH"[OF True this] show ?thesis by auto
  qed
qed

lemma remaining_time_trace_first:
  assumes "remaining_time_trace env p L trace = Inr y" "trace \<noteq> []" "1 \<le> L"
  shows "\<exists>st et v.
       bindE (py_index trace 0) (\<lambda>ev. event_get ev (timestamp_key_of env p)) = Inr st
     \<and> bindE (py_index trace (- 1)) (\<lambda>ev. event_get ev (timestamp_key_of env p)) = Inr et
     \<and> remaining_seconds env p st et = Inr v \<and> y \<noteq> [] \<and> hd y = v"
proof -
  obtain n where n: "length trace = Suc n" using assms(2) by (cases trace) auto
  have upt: "[0..<length trace] = 0 # [1..<length trace]"
    using n by (simp add: upt_conv_Cons del: upt_Suc)
  from assms(1) obtain r where
    r: "remaining_time_events env p trace L [0..<length trace] [] = Inr r"
    and y: "pad_last r L = Inr y"
    by (auto simp: remaining_time_trace_def bindE_Inr_iff)
  have L: "\<not> L \<le> 0" using assms(3) by simp
  from r obtain st et v where
    st: "bindE (py_index trace 0) (\<lambda>ev. event_get ev (timestamp_key_of env p)) = Inr st"
    and et: "bindE (py_index trace (- 1)) (\<lambda>ev. event_get ev (timestamp_key_of env p)) = Inr et"
    and v: "remaining_seconds env p st et = Inr v"
    and rest: "remaining_time_events env p trace L [1..<length trace] [v] = Inr r"
    unfolding upt using L by (auto simp: bindE_Inr_iff)
  from remaining_time_events_prefix[OF rest] obtain s where "r = [v] @ s" by blast
  moreover from pad_last_prefix[OF y] obtain s' where "y = r @ s'" by blast
  ultimately have "y \<noteq> []" "hd y = v" by simp_all
  then show ?thesis using st et v by blast
qed

lemma prefix_label_first:
  assumes "remaining_time_trace env p L trace = Inr y" "trace \<noteq> []" "1 \<le> L"
  shows "(if truthy (business_hours_of p) then business_label env p trace
          else clock_label env p trace) = Inr (PFloat (hd y))"
proof -
  from remaining_time_trace_first[OF assms] obtain st et v where
    st: "bindE (py_index trace 0) (\<lambda>ev. event_get ev (timestamp_key_of env p)) = Inr st"
    and et: "bindE (py_index trace (- 1)) (\<lambda>ev. event_get ev (timestamp_key_of env p)) = Inr et"
    and v: "remaining_seconds env p st et = Inr v" and hd: "hd y = v" by blast
  show ?thesis
  proof (cases "truthy (business_hours_of p)")
    case True
    with v obtain s e where "replace_tzinfo_none st = Inr s" "replace_tzinfo_none et = Inr e"
      "business_hours_getseconds env s e (worktiming_of p) (weekends_of p) = Inr v"
      by (auto simp: remaining_seconds_def bindE_Inr_iff)
    then show ?thesis using True assms(2) st et hd by (simp add: business_label_def)
  next
    case False
    with v have "total_seconds_between et st = Inr v" by (simp add: remaining_seconds_def)
    then show ?thesis using False assms(2) st et hd by (simp add: clock_label_def)
  qed
qed

lemma mapE_nth:
  "mapE f xs = Inr ys \<Longrightarrow> length ys = length xs \<and> (\<forall>k<length xs. f (xs ! k) = Inr (ys ! k))"
proof (induction xs arbitrary: ys)
  case Nil
  then show ?case by simp
next
  case (Cons x xs)
  from Cons.prems obtain y ys' where y: "f x = Inr y" and ys': "mapE f xs = Inr ys'"
    and ys: "ys = y # ys'"
    by (auto simp: bindE_Inr_iff)
  from Cons.IH[OF ys'] have ih: "length ys' = length xs" "\<forall>k<length xs. f (xs ! k) = Inr (ys' ! k)"
    by simp_all
  show ?case
  proof (intro conjI allI impI)
    show "length ys = length (x # xs)" using ys ih(1) by simp
  next
    fix k assume "k < length (x # xs)"
    then show "f ((x # xs) ! k) = Inr (ys ! k)" using y ys ih(2) by (cases k) simp_all
  qed
qed

lemma remaining_time_traces_nth:
  "remaining_time_traces env p L elog = Inr ys \<Longrightarrow>
     length ys = length elog
     \<and> (\<forall>k<length elog. remaining_time_trace env p L (elog ! k) = Inr (ys ! k))"
proof (induction elog arbitrary: ys)
  case Nil
  then show ?case by simp
next
  case (Cons trace rest)
  from Cons.prems obtain y ys' where y: "remaining_time_trace env p L trace = Inr y"
    and ys': "remaining_time_traces env p L rest = Inr ys'" and ys: "ys = y # ys'"
    by (auto simp: bindE_Inr_iff)
  from Cons.IH[OF ys'] have ih: "length ys' = length rest"
    "\<forall>k<length rest. remaining_time_trace env p L (rest ! k) = Inr (ys' ! k)"
    by simp_all
  show ?case
  proof (intro conjI allI impI)
    show "length ys = length (trace # rest)" using ys ih(1) by simp
  next
    fix k assume "k < length (trace # rest)"
    then show "remaining_time_trace env p L ((trace # rest) ! k) = Inr (ys ! k)"
      using y ys ih(2) by (cases k) simp_all
  qed
qed

lemma comparable_timestamped: "comparable env p trace \<Longrightarrow> timestamped env p trace"
  unfolding comparable_def timestamped_def by blast

lemma first_and_last_timestamp:
  assumes "timestamped env p trace" "trace \<noteq> []"
  shows "bindE (py_index trace 0) (\<lambda>ev. event_get ev (timestamp_key_of env p))
           = Inr (timestamp_of env p (hd trace))"
    and "bindE (py_index trace (- 1)) (\<lambda>ev. event_get ev (timestamp_key_of env p))
           = Inr (timestamp_of env p (last trace))"
proof -
  have mem: "hd trace \<in> set trace" "last trace \<in> set trace" using assms(2) by simp_all
  have "py_index trace 0 = Inr (hd trace)"
    using assms(2) by (cases trace) (simp_all add: py_index_def Let_def)
  then show "bindE (py_index trace 0) (\<lambda>ev. event_get ev (timestamp_key_of env p))
           = Inr (timestamp_of env p (hd trace))"
    using event_get_time[OF assms(1) mem(1)] by simp
  show "bindE (py_index trace (- 1)) (\<lambda>ev. event_get ev (timestamp_key_of env p))
           = Inr (timestamp_of env p (last trace))"
    using event_get_time[OF assms(1) mem(2)] assms(2) by (simp add: py_index_last)
qed

lemma clock_label_value:
  assumes "\<not> truthy (business_hours_of p)" "comparable env p trace" "trace \<noteq> []"
  shows "clock_label env p trace
           = Inr (PFloat (time_of env p (last trace) - time_of env p (hd trace)))"
proof -
  have ts: "timestamped env p trace" using assms(2) by (rule comparable_timestamped)
  have mem: "hd trace \<in> set trace" "last trace \<in> set trace" using assms(3) by simp_all
  have "total_seconds_between (timestamp_of env p (last trace)) (timestamp_of env p (hd trace))
      = Inr (time_of env p (last trace) - time_of env p (hd trace))"
    using remaining_seconds_clock[OF assms(1,2) mem] assms(1) by (simp add: remaining_seconds_def)
  then show ?thesis
    using assms(3) first_and_last_timestamp[OF ts assms(3)] by (simp add: clock_label_def)
qed

lemma business_label_value:
  assumes "timestamped env p trace" "trace \<noteq> []"
  shows "business_label env p trace
           = bindE (business_hours_getseconds env (wall_time_of env p (hd trace))
                      (wall_time_of env p (last trace)) (worktiming_of p) (weekends_of p))
               (\<lambda>v. Inr (PFloat v))"
proof -
  have mem: "hd trace \<in> set trace" "last trace \<in> set trace" using assms(2) by simp_all
  from event_get_time[OF assms(1) mem(1)] event_get_time[OF assms(1) mem(2)] obtain s so t to
    where "timestamp_of env p (hd trace) = PTime s so" "timestamp_of env p (last trace) = PTime t to"
    by blast
  then show ?thesis
    using assms(2) first_and_last_timestamp[OF assms]
    by (simp add: business_label_def replace_tzinfo_none_def wall_time_of_def)
qed

text \<open>
  Claim C3, as amended. Let the elastic-net \<open>train\<close> return a model for options
  without \<open>y_orig\<close>. Then the model holds one label per prefix of the expanded log.
  The label of an empty prefix is 0. The label of a non-empty prefix is the remaining
  time the Label Extractor computes for that prefix taken as a trace, at its first
  event: whenever \<open>get_remaining_time_from_log\<close> succeeds on the log of that one
  prefix, or on the whole expanded log, with the same options and a \<open>max_len_trace\<close>
  of at least 1, the label is the first entry of the list it returns for the prefix. With \<open>business_hours\<close> unset this is the seconds
  from the first to the last timestamp of the prefix; with \<open>business_hours\<close> set it is
  what the business calendar counts from the reading of the first to the reading of
  the last.
\<close>

theorem elasticnet_prefix_labels:
  assumes run: "elasticnet_train env elog ps heap = (heap', Inr model)"
    and p: "p = heap' ! fst (enter_parameters ps heap)"
    and no_y: "param_or p ''y_orig'' PNone = PNone"
    and sorted: "sort_timestamp env elog (timestamp_key_of env p) = Inr sorted_log"
    and pre: "get_log_with_log_prefixes env sorted_log = Inr (ext_log, change_indexes)"
  shows "length (en_remaining_time model) = length ext_log
     \<and> (\<forall>k<length ext_log.
          (ext_log ! k = [] \<longrightarrow> en_remaining_time model ! k = PInt 0)
        \<and> (ext_log ! k \<noteq> [] \<longrightarrow>
              (\<forall>L ys. 1 \<le> L
                   \<and> get_remaining_time_from_log env [ext_log ! k] L (Some p) = Inr ys
                 \<longrightarrow> en_remaining_time model ! k = PFloat (hd (hd ys)))
            \<and> (\<forall>L ys. 1 \<le> L
                   \<and> get_remaining_time_from_log env ext_log L (Some p) = Inr ys
                 \<longrightarrow> en_remaining_time model ! k = PFloat (hd (ys ! k)))
            \<and> (\<not> truthy (business_hours_of p) \<and> comparable env p (ext_log ! k) \<longrightarrow>
                  en_remaining_time model ! k
                    = PFloat (time_of env p (last (ext_log ! k))
                                - time_of env p (hd (ext_log ! k))))
            \<and> (truthy (business_hours_of p) \<and> timestamped env p (ext_log ! k) \<longrightarrow>
                  business_hours_getseconds env (wall_time_of env p (hd (ext_log ! k)))
                      (wall_time_of env p (last (ext_log ! k)))
                      (worktiming_of p) (weekends_of p)
                    = Inr (case en_remaining_time model ! k of PFloat v \<Rightarrow> v | _ \<Rightarrow> 0)
                \<and> (\<exists>v. en_remaining_time model ! k = PFloat v))))"
proof -
  obtain a h0 where e: "enter_parameters ps heap = (a, h0)" by (cases "enter_parameters ps heap")
  have body: "elasticnet_train_body env elog p = Inr model"
    using run p by (auto simp: elasticnet_train_def e Let_def)
  have "\<exists>rt. elasticnet_remaining_time env p PNone ext_log = Inr rt \<and> en_remaining_time model = rt"
    using body no_y sorted pre
    by (auto simp: elasticnet_train_body_def Let_def bindE_Inr_iff split: prod.splits)
  then obtain rt where rt: "elasticnet_remaining_time env p PNone ext_log = Inr rt"
    and m: "en_remaining_time model = rt" by blast
  define label where "label = (\<lambda>trace. if truthy (business_hours_of p)
      then business_label env p trace else clock_label env p trace)"
  have "mapE label ext_log = Inr rt"
    using rt by (cases "truthy (business_hours_of p)")
      (simp_all add: elasticnet_remaining_time_def label_def cong: if_cong)
  from mapE_nth[OF this] have len: "length rt = length ext_log"
    and each: "\<forall>k<length ext_log. label (ext_log ! k) = Inr (rt ! k)" by simp_all
  have per: "(ext_log ! k = [] \<longrightarrow> rt ! k = PInt 0)
        \<and> (ext_log ! k \<noteq> [] \<longrightarrow>
              (\<forall>L ys. 1 \<le> L
                   \<and> get_remaining_time_from_log env [ext_log ! k] L (Some p) = Inr ys
                 \<longrightarrow> rt ! k = PFloat (hd (hd ys)))
            \<and> (\<forall>L ys. 1 \<le> L
                   \<and> get_remaining_time_from_log env ext_log L (Some p) = Inr ys
                 \<longrightarrow> rt ! k = PFloat (hd (ys ! k)))
            \<and> (\<not> truthy (business_hours_of p) \<and> comparable env p (ext_log ! k) \<longrightarrow>
                  rt ! k = PFloat (time_of env p (last (ext_log ! k))
                                - time_of env p (hd (ext_log ! k))))
            \<and> (truthy (business_hours_of p) \<and> timestamped env p (ext_log ! k) \<longrightarrow>
                  business_hours_getseconds env (wall_time_of env p (hd (ext_log ! k)))
                      (wall_time_of env p (last (ext_log ! k)))
                      (worktiming_of p) (weekends_of p)
                    = Inr (case rt ! k of PFloat v \<Rightarrow> v | _ \<Rightarrow> 0)
                \<and> (\<exists>v. rt ! k = PFloat v)))"
    if k: "k < length ext_log" for k
  proof -
    define tr where "tr = ext_log ! k"
    have lab: "label tr = Inr (rt ! k)" using each k by (simp add: tr_def)
    have empty: "rt ! k = PInt 0" if "tr = []"
      using lab that by (auto simp: label_def business_label_def clock_label_def split: if_splits)
    have extractor: "rt ! k = PFloat (hd (hd ys))"
      if "tr \<noteq> []" "1 \<le> L" "get_remaining_time_from_log env [tr] L (Some p) = Inr ys" for L ys
    proof -
      from that(3) obtain y where y: "remaining_time_trace env p L tr = Inr y" and ys: "ys = [y]"
        by (auto simp: get_remaining_time_from_log_def bindE_Inr_iff)
      from prefix_label_first[OF y that(1,2)] lab ys show ?thesis by (simp add: label_def)
    qed
    have whole: "rt ! k = PFloat (hd (ys ! k))"
      if "tr \<noteq> []" "1 \<le> L" "get_remaining_time_from_log env ext_log L (Some p) = Inr ys"
      for L ys
    proof -
      from that(3) have "remaining_time_traces env p L ext_log = Inr ys"
        by (simp add: get_remaining_time_from_log_def)
      from remaining_time_traces_nth[OF this] k
      have y: "remaining_time_trace env p L tr = Inr (ys ! k)" by (simp add: tr_def)
      from prefix_label_first[OF y that(1,2)] lab show ?thesis by (simp add: label_def)
    qed
    have clock: "rt ! k = PFloat (time_of env p (last tr) - time_of env p (hd tr))"
      if "tr \<noteq> []" "\<not> truthy (business_hours_of p)" "comparable env p tr"
      using clock_label_value[OF that(2,3,1)] lab that(2) by (simp add: label_def)
    have business: "business_hours_getseconds env (wall_time_of env p (hd tr))
                      (wall_time_of env p (last tr)) (worktiming_of p) (weekends_of p)
                    = Inr (case rt ! k of PFloat v \<Rightarrow> v | _ \<Rightarrow> 0)
                \<and> (\<exists>v. rt ! k = PFloat v)"
      if "tr \<noteq> []" "truthy (business_hours_of p)" "timestamped env p tr"
    proof -
      have "bindE (business_hours_getseconds env (wall_time_of env p (hd tr))
                      (wall_time_of env p (last tr)) (worktiming_of p) (weekends_of p))
               (\<lambda>v. Inr (PFloat v)) = Inr (rt ! k)"
        using business_label_value[OF that(3,1)] lab that(2) by (simp add: label_def)
      then obtain v where "business_hours_getseconds env (wall_time_of env p (hd tr))
                      (wall_time_of env p (last tr)) (worktiming_of p) (weekends_of p) = Inr v"
        "rt ! k = PFloat v" by (auto simp: bindE_Inr_iff)
      then show ?thesis by simp
    qed
    show ?thesis
      unfolding tr_def[symmetric]
      using empty extractor whole clock business by (intro conjI allI impI) blast+
  qed
  show ?thesis unfolding m using len per by blast
qed

text \<open>
  Claim C10. Both \<open>train\<close> functions write into the dictionary the caller passes:
  after the call, whether it returned or raised, the caller's dictionary has
  \<open>enable_sort\<close> set to \<open>False\<close>, all its other entries are as before, and so is every
  other dictionary of the store.
\<close>

theorem train_sets_enable_sort:
  assumes "a < length heap"
  shows "only_enable_sort_written heap a (fst (elasticnet_train env elog (Some a) heap))
       \<and> only_enable_sort_written heap a (fst (keras_train env elog (Some a) heap))"
  using assms
  by (auto simp: only_enable_sort_written_def elasticnet_train_def keras_train_def
        enter_parameters_def Let_def)

section \<open>Examples\<close>

text \<open>
  The functions run on concrete inputs. The equations unfolded for that are collected
  first.
\<close>

lemmas ex_simps = example_env_def example_trace_def example_event_def example_str_def
  get_remaining_time_from_log_def remaining_time_trace_def timestamp_key_of_def param_or_def
  event_get_def py_index_def remaining_seconds_def business_hours_of_def total_seconds_between_def
  pad_last.simps Let_def

lemmas tensor_simps = get_X_from_log_def get_trace_rep_rnn_def event_vector_def list_set_def
  pad_zero_rows.simps np_transpose_def np_shape_def AList.update.simps

lemmas train_simps = keras_train_def keras_train_body_def enter_parameters_def max_trace_length_def
  normalize_remaining_time_def math_log_def resolve_attributes_def activity_key_of_def
  hidden_neurons_of_def example_feature_names_def

theorem trace_rep_shape_counterexample:
  "\<exists>X. get_trace_rep_rnn example_str [example_event ''A'' 0, example_event ''B'' 5]
          [(''event:concept:name@A'', 0), (''succession:concept:name@A#B'', 1)] 3 = Inr X
     \<and> length X = 2 \<and> length X \<noteq> 3 \<and> length (hd X) = 3"
  by (simp add: tensor_simps ex_simps)

theorem trace_rep_shape_witness:
  "[example_event ''A'' 0, example_event ''B'' 5] \<noteq> []
   \<and> wf_dictionary [(''event:concept:name@A'', 0), (''succession:concept:name@A#B'', 1)]
   \<and> (1::nat) \<le> 3
   \<and> (\<exists>X. get_trace_rep_rnn example_str [example_event ''A'' 0, example_event ''B'' 5]
          [(''event:concept:name@A'', 0), (''succession:concept:name@A#B'', 1)] 3 = Inr X
        \<and> length X = 2 \<and> length (X ! 0) = 3 \<and> length (X ! 1) = 3
        \<and> X ! 0 ! 2 = 0 \<and> X ! 1 ! 2 = 0)
   \<and> get_trace_rep_rnn example_str [example_event ''A'' 0, example_event ''B'' 5]
          [(''event:concept:name@A'', 0), (''succession:concept:name@A#B'', 1)] 3
       = Inr [[1, 0, 0], [1, 0, 0]]"
proof -
  let ?tr = "[example_event ''A'' 0, example_event ''B'' 5]"
  let ?d = "[(''event:concept:name@A'', 0::nat), (''succession:concept:name@A#B'', 1)]"
  have h1: "?tr \<noteq> []" by simp
  have h2: "wf_dictionary ?d" by (simp add: wf_dictionary_def)
  have h3: "(1::nat) \<le> 3" by simp
  from trace_rep_shape[OF h1 h2 h3, of example_str] obtain X where
    X: "get_trace_rep_rnn example_str ?tr ?d 3 = Inr X" "length X = length ?d"
    and e: "\<forall>c<length ?d. length (X ! c) = 3
          \<and> (\<forall>j<3. (X ! c ! j = 0 \<or> X ! c ! j = 1) \<and> (length ?tr \<le> j \<longrightarrow> X ! c ! j = 0))"
    by blast
  from e have "length (X ! 0) = 3" "length (X ! 1) = 3" "X ! 0 ! 2 = 0" "X ! 1 ! 2 = 0"
    by simp_all
  moreover have "get_trace_rep_rnn example_str ?tr ?d 3 = Inr [[1, 0, 0], [1, 0, 0]]"
    by (simp add: tensor_simps ex_simps)
  ultimately show ?thesis using h1 h2 X by auto
qed

text \<open>
  Claim C4 at a log that holds one empty trace: encoding it for the sequence model
  raises IndexError, the padding loop of \<open>get_trace_rep_rnn\<close> reading the last row of
  a tensor that has no row yet. The empty trace is not dropped.
\<close>

theorem empty_trace_raises:
  "get_X_from_log example_str [[]] [''event:concept:name@A''] 1 = Inl IndexError
   \<and> get_trace_rep_rnn example_str [] [(''event:concept:name@A'', 0)] 1 = Inl IndexError"
  by (simp add: tensor_simps ex_simps)

theorem keras_hidden_units_counterexample:
  "\<exists>heap' model.
     keras_train example_env
       [[example_event ''A'' 0, example_event ''A'' 5, example_event ''A'' 12]]
       None [] = (heap', Inr model)
   \<and> length (km_feature_names model) = 2
   \<and> hidden_neurons (km_regr model) = 22
   \<and> hidden_neurons (km_regr model)
        \<noteq> min (nat (round (7.5 * real (length (km_feature_names model))))) 50"
  by (simp add: train_simps tensor_simps ex_simps)

theorem keras_hidden_units_witness:
  "\<exists>heap' model.
     keras_train example_env
       [[example_event ''A'' 0, example_event ''A'' 5, example_event ''A'' 12]]
       None [] = (heap', Inr model)
   \<and> km_max_len_trace model = 3
   \<and> in_out_neurons (km_regr model) = km_max_len_trace model
   \<and> hidden_neurons (km_regr model) = min (15 * km_max_len_trace model div 2) 50"
proof -
  let ?l = "[[example_event ''A'' 0, example_event ''A'' 5, example_event ''A'' 12]]"
  have "\<exists>heap' model. keras_train example_env ?l None [] = (heap', Inr model)
      \<and> km_max_len_trace model = 3"
    by (simp add: train_simps tensor_simps ex_simps)
  then obtain heap' model where
    r: "keras_train example_env ?l None [] = (heap', Inr model)" and m: "km_max_len_trace model = 3"
    by blast
  from keras_hidden_units[OF r] r m show ?thesis by blast
qed

theorem remaining_time_labels_counterexample:
  "get_remaining_time_from_log example_env [example_trace] 2 None = Inr [[12, 7]]
   \<and> [12, 7 :: real] ! (min (length example_trace) 2 - 1) \<noteq> 0"
  by (simp add: ex_simps)

theorem remaining_time_labels_witness:
  "list_all (\<lambda>trace. trace \<noteq> [] \<and> timestamped example_env Map.empty trace
                \<and> comparable example_env Map.empty trace) [example_trace]
   \<and> \<not> truthy (business_hours_of Map.empty)
   \<and> (\<exists>ys. get_remaining_time_from_log example_env [example_trace] 5 (Some Map.empty) = Inr ys
         \<and> length ys = 1 \<and> length (ys ! 0) = 5
         \<and> ys ! 0 ! 1 = time_of example_env Map.empty (last example_trace)
                          - time_of example_env Map.empty (example_trace ! 1)
         \<and> ys ! 0 ! 2 = 0 \<and> ys ! 0 ! 4 = ys ! 0 ! 2)
   \<and> get_remaining_time_from_log example_env [example_trace] 5 (Some Map.empty)
       = Inr [[12, 7, 0, 0, 0]]
   \<and> truthy (business_hours_of [''business_hours'' \<mapsto> PBool True])
   \<and> calendar_total example_env [''business_hours'' \<mapsto> PBool True]
   \<and> (\<exists>ys. get_remaining_time_from_log example_env [example_trace] 5
               (Some [''business_hours'' \<mapsto> PBool True]) = Inr ys
         \<and> business_hours_getseconds example_env
               (wall_time_of example_env [''business_hours'' \<mapsto> PBool True] (example_trace ! 1))
               (wall_time_of example_env [''business_hours'' \<mapsto> PBool True] (last example_trace))
               (worktiming_of [''business_hours'' \<mapsto> PBool True])
               (weekends_of [''business_hours'' \<mapsto> PBool True])
             = Inr (ys ! 0 ! 1)
         \<and> ys ! 0 ! 2 = 0)"
proof -
  let ?b = "[''business_hours'' \<mapsto> PBool True]"
  have ne: "example_trace \<noteq> []" by (simp add: example_trace_def)
  have len: "length example_trace = 3" by (simp add: example_trace_def)
  have ts: "timestamped example_env Map.empty example_trace"
    "timestamped example_env ?b example_trace"
    by (simp_all add: timestamped_def ex_simps)
  have cmp: "comparable example_env Map.empty example_trace"
    "comparable example_env ?b example_trace"
    by (simp_all add: comparable_def ex_simps)
  have nb: "\<not> truthy (business_hours_of Map.empty)" by (simp add: business_hours_of_def param_or_def)
  have h1: "\<forall>trace\<in>set [example_trace]. trace \<noteq> [] \<and> timestamped example_env Map.empty trace
      \<and> (\<not> truthy (business_hours_of Map.empty) \<longrightarrow> comparable example_env Map.empty trace)"
    using ts cmp ne by simp
  have h2: "truthy (business_hours_of Map.empty) \<longrightarrow> calendar_total example_env Map.empty"
    using nb by simp
  from remaining_time_labels[OF h1 h2, of 5] obtain ys where
    r: "get_remaining_time_from_log example_env [example_trace] 5 (Some Map.empty) = Inr ys"
    and l: "length ys = length [example_trace]"
    and k: "length (ys ! 0) = 5"
      "\<forall>i<min (length ([example_trace] ! 0)) 5.
          ys ! 0 ! i = time_of example_env Map.empty (last ([example_trace] ! 0))
                        - time_of example_env Map.empty ([example_trace] ! 0 ! i)"
      "\<forall>i<5. length ([example_trace] ! 0) \<le> i \<longrightarrow> ys ! 0 ! i = ys ! 0 ! (length ([example_trace] ! 0) - 1)"
      "length ([example_trace] ! 0) \<le> 5 \<longrightarrow> ys ! 0 ! (length ([example_trace] ! 0) - 1) = 0"
    using nb by auto
  from k(2) have e1: "ys ! 0 ! 1 = time_of example_env Map.empty (last example_trace)
                          - time_of example_env Map.empty (example_trace ! 1)"
    by (simp add: len)
  from k(4) have z: "ys ! 0 ! 2 = 0" by (simp add: len)
  from k(3) have pd: "ys ! 0 ! 4 = ys ! 0 ! 2" by (simp add: len)
  have ev: "get_remaining_time_from_log example_env [example_trace] 5 (Some Map.empty)
       = Inr [[12, 7, 0, 0, 0]]"
    by (simp add: ex_simps)
  have tb: "truthy (business_hours_of ?b)" by (simp add: business_hours_of_def param_or_def)
  have ct: "calendar_total example_env ?b" by (simp add: calendar_total_def example_env_def)
  have g1: "\<forall>trace\<in>set [example_trace]. trace \<noteq> [] \<and> timestamped example_env ?b trace
      \<and> (\<not> truthy (business_hours_of ?b) \<longrightarrow> comparable example_env ?b trace)"
    using ts cmp ne by simp
  have g2: "truthy (business_hours_of ?b) \<longrightarrow> calendar_total example_env ?b" using ct by simp
  have zero: "business_hours_getseconds example_env
               (wall_time_of example_env ?b (last ([example_trace] ! 0)))
               (wall_time_of example_env ?b (last ([example_trace] ! 0)))
               (worktiming_of ?b) (weekends_of ?b) = Inr 0"
    by (simp add: example_env_def)
  from remaining_time_labels[OF g1 g2, of 5] obtain zs where
    rb: "get_remaining_time_from_log example_env [example_trace] 5 (Some ?b) = Inr zs"
    and kb: "\<forall>i<min (length ([example_trace] ! 0)) 5.
          business_hours_getseconds example_env
               (wall_time_of example_env ?b ([example_trace] ! 0 ! i))
               (wall_time_of example_env ?b (last ([example_trace] ! 0)))
               (worktiming_of ?b) (weekends_of ?b) = Inr (zs ! 0 ! i)"
      "length ([example_trace] ! 0) \<le> 5
             \<and> (truthy (business_hours_of ?b) \<longrightarrow>
                  business_hours_getseconds example_env
                    (wall_time_of example_env ?b (last ([example_trace] ! 0)))
                    (wall_time_of example_env ?b (last ([example_trace] ! 0)))
                    (worktiming_of ?b) (weekends_of ?b) = Inr 0)
             \<longrightarrow> zs ! 0 ! (length ([example_trace] ! 0) - 1) = 0"
    using tb by auto
  from kb(1) have b1: "business_hours_getseconds example_env
               (wall_time_of example_env ?b (example_trace ! 1))
               (wall_time_of example_env ?b (last example_trace))
               (worktiming_of ?b) (weekends_of ?b) = Inr (zs ! 0 ! 1)"
    by (simp add: len)
  from kb(2) zero have bz: "zs ! 0 ! 2 = 0" by (simp add: len)
  have A: "list_all (\<lambda>trace. trace \<noteq> [] \<and> timestamped example_env Map.empty trace
                \<and> comparable example_env Map.empty trace) [example_trace]"
    using ts cmp ne by simp
  have B: "\<exists>ys. get_remaining_time_from_log example_env [example_trace] 5 (Some Map.empty) = Inr ys
         \<and> length ys = 1 \<and> length (ys ! 0) = 5
         \<and> ys ! 0 ! 1 = time_of example_env Map.empty (last example_trace)
                          - time_of example_env Map.empty (example_trace ! 1)
         \<and> ys ! 0 ! 2 = 0 \<and> ys ! 0 ! 4 = ys ! 0 ! 2"
    using r l k(1) e1 z pd by auto
  have C: "\<exists>ys. get_remaining_time_from_log example_env [example_trace] 5 (Some ?b) = Inr ys
         \<and> business_hours_getseconds example_env
               (wall_time_of example_env ?b (example_trace ! 1))
               (wall_time_of example_env ?b (last example_trace))
               (worktiming_of ?b) (weekends_of ?b) = Inr (ys ! 0 ! 1)
         \<and> ys ! 0 ! 2 = 0"
    using rb b1 bz by blast
  show ?thesis using A nb B ev tb ct C by (intro conjI)
qed

theorem group_remaining_time_shape_witness:
  "list_all (\<lambda>ct. ct \<noteq> []) [[0, 1, 2], [3::nat]]
   \<and> sum_list (map length [[0, 1, 2], [3::nat]]) \<le> length [12, 7, 0, 5 :: real]
   \<and> (1::nat) \<le> 2
   \<and> (\<exists>grouped. group_remaining_time [[0, 1, 2], [3]] [12, 7, 0, 5] 2 = Inr grouped
         \<and> length grouped = 2 \<and> length (grouped ! 0) = 2 \<and> length (grouped ! 1) = 2
         \<and> grouped ! 1 ! 1 = [12, 7, 0, 5] ! 3)
   \<and> group_remaining_time [[0, 1, 2], [3]] [12, 7, 0, 5] 2 = Inr [[12, 7], [5, 5]]"
proof -
  have h1: "\<forall>ct\<in>set [[0, 1, 2], [3::nat]]. ct \<noteq> []" by simp
  have h2: "sum_list (map length [[0, 1, 2], [3::nat]]) \<le> length [12, 7, 0, 5 :: real]" by simp
  have h3: "(1::nat) \<le> 2" by simp
  from group_remaining_time_shape[OF h1 h2 h3] obtain grouped where
    g: "group_remaining_time [[0, 1, 2], [3]] [12, 7, 0, 5] 2 = Inr grouped"
    "length grouped = length [[0, 1, 2], [3::nat]]"
    and k: "\<forall>k<length [[0, 1, 2], [3::nat]].
          length (grouped ! k) = 2
        \<and> (\<forall>i<2. grouped ! k ! i =
               [12, 7, 0, 5] ! (sum_list (map length (take k [[0, 1, 2], [3::nat]]))
                                 + min i (length ([[0, 1, 2], [3::nat]] ! k) - 1)))"
    by blast
  from k have "length (grouped ! 0) = 2" "length (grouped ! 1) = 2"
    "grouped ! 1 ! 1 = [12, 7, 0, 5] ! 3" by simp_all
  moreover have "group_remaining_time [[0, 1, 2], [3]] [12, 7, 0, 5] 2 = Inr [[12, 7], [5, 5]]"
    by (simp add: group_remaining_time_def py_index_def pad_last.simps Let_def)
  ultimately show ?thesis using g by simp
qed

theorem keras_test_reads_own_length_witness:
  "get_X_from_log (py_str example_env)
       (log_of (ObjEventLog [example_trace, [example_event ''B'' 7]]))
       (km_feature_names example_model) (km_max_len_trace example_model)
     = Inr [[[0, 1, 0, 0], [1, 0, 1, 0], [1, 0, 0, 0], [0, 1, 0, 0]],
            [[0, 0, 0, 0], [0, 0, 0, 0], [0, 0, 0, 0], [1, 0, 0, 0]]]
   \<and> rnn_predict example_env (fitted (km_regr example_model))
         [[[0, 1, 0, 0], [1, 0, 1, 0], [1, 0, 0, 0], [0, 1, 0, 0]],
          [[0, 0, 0, 0], [0, 0, 0, 0], [0, 0, 0, 0], [1, 0, 0, 0]]]
       = Inr [[- 3, 1 / 2, 0, 1 / 2], [- 3, 1 / 2, 0, 1 / 2]]
   \<and> length example_trace = 3 \<and> km_max_len_trace example_model = 4
   \<and> keras_test example_env example_model (ObjEventLog [example_trace, [example_event ''B'' 7]])
       = Inr (Predictions [exp ((0 + 1) / 2 * ln 21) - 1, exp ((- 1 + 1) / 2 * ln 21) - 1])
   \<and> keras_test example_env example_model (ObjEventLog [example_trace, [example_event ''B'' 7]])
       = Inr (Predictions [sqrt 21 - 1, 0])
   \<and> keras_test example_env example_model (ObjTrace example_trace)
       = Inr (Scalar (exp ((0 + 1) / 2 * ln 21) - 1))"
proof -
  let ?obj = "ObjEventLog [example_trace, [example_event ''B'' 7]]"
  let ?X = "[[[0, 1, 0, 0], [1, 0, 1, 0], [1, 0, 0, 0], [0, 1, 0, 0 :: real]],
            [[0, 0, 0, 0], [0, 0, 0, 0], [0, 0, 0, 0], [1, 0, 0, 0]]]"
  let ?y = "[[- 3, 1 / 2, 0, 1 / 2 :: real], [- 3, 1 / 2, 0, 1 / 2]]"
  have lo: "log_of ?obj = [example_trace, [example_event ''B'' 7]]" by (simp add: log_of_def)
  have len: "length example_trace = 3" by (simp add: example_trace_def)
  have h1: "get_X_from_log (py_str example_env) (log_of ?obj)
       (km_feature_names example_model) (km_max_len_trace example_model) = Inr ?X"
    by (simp add: log_of_def example_model_def tensor_simps ex_simps)
  have h2: "rnn_predict example_env (fitted (km_regr example_model)) ?X = Inr ?y"
    by (simp add: example_env_def)
  have h3: "length (log_of ?obj) \<le> length ?y" by (simp add: lo)
  have h4: "\<forall>i<length (log_of ?obj).
                 0 < length (log_of ?obj ! i) \<and> length (log_of ?obj ! i) \<le> length (?y ! i)"
    unfolding lo using len by (auto simp: less_Suc_eq)
  have m: "[0..<length (log_of ?obj)] = [0, 1]" by (simp add: lo upt_rec)
  have t: "keras_test example_env example_model ?obj
       = Inr (Predictions [exp ((0 + 1) / 2 * ln 21) - 1, exp ((- 1 + 1) / 2 * ln 21) - 1])"
    using keras_test_reads_own_length[OF h1 h2 h3 h4] unfolding m
    by (simp add: lo len example_model_def)
  have "exp ((0 + 1) / 2 * ln 21) = sqrt 21"
    using powr_half_sqrt[of 21] by (simp add: powr_def mult.commute)
  then have t': "keras_test example_env example_model ?obj = Inr (Predictions [sqrt 21 - 1, 0])"
    using t by simp
  let ?o1 = "ObjTrace example_trace"
  let ?X1 = "[[[0, 1, 0, 0], [1, 0, 1, 0], [1, 0, 0, 0], [0, 1, 0, 0 :: real]]]"
  let ?y1 = "[[- 3, 1 / 2, 0, 1 / 2 :: real]]"
  have lo1: "log_of ?o1 = [example_trace]" by (simp add: log_of_def)
  have k1: "get_X_from_log (py_str example_env) (log_of ?o1)
       (km_feature_names example_model) (km_max_len_trace example_model) = Inr ?X1"
    by (simp add: log_of_def example_model_def tensor_simps ex_simps)
  have k2: "rnn_predict example_env (fitted (km_regr example_model)) ?X1 = Inr ?y1"
    by (simp add: example_env_def)
  have k3: "length (log_of ?o1) \<le> length ?y1" by (simp add: lo1)
  have k4: "\<forall>i<length (log_of ?o1).
                 0 < length (log_of ?o1 ! i) \<and> length (log_of ?o1 ! i) \<le> length (?y1 ! i)"
    by (simp add: lo1 len)
  have s: "keras_test example_env example_model ?o1
       = Inr (Scalar (exp ((0 + 1) / 2 * ln 21) - 1))"
    using keras_test_reads_own_length[OF k1 k2 k3 k4]
    by (simp add: lo1 len example_model_def)
  have mx: "km_max_len_trace example_model = 4" by (simp add: example_model_def)
  show ?thesis using h1 h2 len mx t t' s by (intro conjI)
qed

theorem train_sets_enable_sort_witness:
  "(0::nat) < length [[''default_epochs'' \<mapsto> PInt 10, ''enable_sort'' \<mapsto> PBool True]]
   \<and> only_enable_sort_written [[''default_epochs'' \<mapsto> PInt 10, ''enable_sort'' \<mapsto> PBool True]] 0
        (fst (elasticnet_train example_env [example_trace] (Some 0)
               [[''default_epochs'' \<mapsto> PInt 10, ''enable_sort'' \<mapsto> PBool True]]))
   \<and> only_enable_sort_written [[''default_epochs'' \<mapsto> PInt 10, ''enable_sort'' \<mapsto> PBool True]] 0
        (fst (keras_train example_env [example_trace] (Some 0)
               [[''default_epochs'' \<mapsto> PInt 10, ''enable_sort'' \<mapsto> PBool True]]))
   \<and> (fst (keras_train example_env [example_trace] (Some 0)
               [[''default_epochs'' \<mapsto> PInt 10, ''enable_sort'' \<mapsto> PBool True]]) ! 0) ''enable_sort''
       = Some (PBool False)"
proof -
  let ?h = "[[''default_epochs'' \<mapsto> PInt 10, ''enable_sort'' \<mapsto> PBool True]]"
  have h: "(0::nat) < length ?h" by simp
  from train_sets_enable_sort[OF h, of example_env "[example_trace]"]
  have a: "only_enable_sort_written ?h 0 (fst (elasticnet_train example_env [example_trace] (Some 0) ?h))"
    and b: "only_enable_sort_written ?h 0 (fst (keras_train example_env [example_trace] (Some 0) ?h))"
    by blast+
  from b have "(fst (keras_train example_env [example_trace] (Some 0) ?h) ! 0) ''enable_sort''
       = Some (PBool False)"
    by (simp only: only_enable_sort_written_def)
  then show ?thesis using h a b by blast
qed

lemmas en_simps = elasticnet_train_def elasticnet_train_body_def enter_parameters_def
  resolve_attributes_def activity_key_of_def elasticnet_remaining_time_def clock_label_def
  example_prefixes_def

theorem elasticnet_prefix_labels_counterexample:
  "\<exists>heap' model ext_log change_indexes.
     elasticnet_train example_env [example_trace] None [] = (heap', Inr model)
   \<and> param_or (heap' ! 0) ''y_orig'' PNone = PNone
   \<and> get_log_with_log_prefixes example_env [example_trace] = Inr (ext_log, change_indexes)
   \<and> ext_log ! 0 = []
   \<and> en_remaining_time model ! 0 = PInt 0
   \<and> get_remaining_time_from_log example_env ext_log 3 (Some (heap' ! 0)) = Inl IndexError
   \<and> get_remaining_time_from_log example_env [ext_log ! 0] 1 (Some (heap' ! 0)) = Inl IndexError"
  by (simp add: en_simps ex_simps)

theorem elasticnet_prefix_labels_witness:
  "\<exists>heap' model ext_log change_indexes.
     elasticnet_train example_env [example_trace] None [] = (heap', Inr model)
   \<and> param_or (heap' ! 0) ''y_orig'' PNone = PNone
   \<and> sort_timestamp example_env [example_trace] (timestamp_key_of example_env (heap' ! 0))
       = Inr [example_trace]
   \<and> get_log_with_log_prefixes example_env [example_trace] = Inr (ext_log, change_indexes)
   \<and> ext_log = [[], [example_event ''A'' 0], [example_event ''A'' 0, example_event ''B'' 5]]
   \<and> length (en_remaining_time model) = length ext_log
   \<and> en_remaining_time model ! 0 = PInt 0
   \<and> get_remaining_time_from_log example_env [ext_log ! 2] 2 (Some (heap' ! 0)) = Inr [[5, 0]]
   \<and> en_remaining_time model ! 2 = PFloat (hd (hd [[5, 0 :: real]]))
   \<and> en_remaining_time model ! 2
       = PFloat (time_of example_env (heap' ! 0) (last (ext_log ! 2))
                   - time_of example_env (heap' ! 0) (hd (ext_log ! 2)))
   \<and> en_remaining_time model = [PInt 0, PFloat 0, PFloat 5]"
proof -
  let ?p = "[''enable_sort'' \<mapsto> PBool False]"
  let ?pre = "[example_event ''A'' 0, example_event ''B'' 5]"
  let ?ext = "[[], [example_event ''A'' 0], ?pre]"
  have "\<exists>heap' model. elasticnet_train example_env [example_trace] None [] = (heap', Inr model)
     \<and> heap' = [?p] \<and> en_remaining_time model = [PInt 0, PFloat 0, PFloat 5]"
    by (simp add: en_simps ex_simps)
  then obtain heap' model where
    run: "elasticnet_train example_env [example_trace] None [] = (heap', Inr model)"
    and hp: "heap' = [?p]" and labels: "en_remaining_time model = [PInt 0, PFloat 0, PFloat 5]"
    by blast
  have p: "?p = heap' ! fst (enter_parameters None [])"
    by (simp add: hp enter_parameters_def)
  have no_y: "param_or ?p ''y_orig'' PNone = PNone" by (simp add: param_or_def)
  have sorted: "sort_timestamp example_env [example_trace] (timestamp_key_of example_env ?p)
      = Inr [example_trace]" by (simp add: example_env_def)
  have pre: "get_log_with_log_prefixes example_env [example_trace] = Inr (?ext, [[0, 1, 2]])"
    by (simp add: example_env_def example_prefixes_def example_trace_def)
  have nb: "\<not> truthy (business_hours_of ?p)" by (simp add: business_hours_of_def param_or_def)
  have cmp: "comparable example_env ?p ?pre" by (simp add: comparable_def ex_simps)
  have ext: "get_remaining_time_from_log example_env [?pre] 2 (Some ?p) = Inr [[5, 0]]"
    by (simp add: ex_simps)
  from elasticnet_prefix_labels[OF run p no_y sorted pre]
  have len: "length (en_remaining_time model) = length ?ext"
    and per: "\<forall>k<length ?ext.
          (?ext ! k = [] \<longrightarrow> en_remaining_time model ! k = PInt 0)
        \<and> (?ext ! k \<noteq> [] \<longrightarrow>
              (\<forall>L ys. 1 \<le> L
                   \<and> get_remaining_time_from_log example_env [?ext ! k] L (Some ?p) = Inr ys
                 \<longrightarrow> en_remaining_time model ! k = PFloat (hd (hd ys)))
            \<and> (\<not> truthy (business_hours_of ?p) \<and> comparable example_env ?p (?ext ! k) \<longrightarrow>
                  en_remaining_time model ! k
                    = PFloat (time_of example_env ?p (last (?ext ! k))
                                - time_of example_env ?p (hd (?ext ! k)))))"
    by blast+
  from per have k0: "en_remaining_time model ! 0 = PInt 0" by simp
  from per have k2: "(\<forall>L ys. 1 \<le> L
                   \<and> get_remaining_time_from_log example_env [?pre] L (Some ?p) = Inr ys
                 \<longrightarrow> en_remaining_time model ! 2 = PFloat (hd (hd ys)))"
    "\<not> truthy (business_hours_of ?p) \<and> comparable example_env ?p ?pre \<longrightarrow>
                  en_remaining_time model ! 2
                    = PFloat (time_of example_env ?p (last ?pre) - time_of example_env ?p (hd ?pre))"
    by simp_all
  from k2(1) ext have e2: "en_remaining_time model ! 2 = PFloat (hd (hd [[5, 0 :: real]]))"
    by (metis one_le_numeral)
  from k2(2) nb cmp have c2: "en_remaining_time model ! 2
       = PFloat (time_of example_env ?p (last ?pre) - time_of example_env ?p (hd ?pre))"
    by blast
  show ?thesis
    using run no_y sorted pre len k0 ext e2 c2 labels unfolding hp
    by (intro exI[of _ "[?p]"] exI[of _ model] exI[of _ ?ext] exI[of _ "[[0, 1, 2]]"]) simp
qed

end
